theory Spec2Isabelle
  imports Main "HOL-Library.Multiset"
begin

section \<open>Cards, errors and the random source\<close>

text \<open>
  The dataclasses \<^verbatim>\<open>SetupCard\<close> and \<^verbatim>\<open>PunchlineCard\<close> of \<^verbatim>\<open>lobby.py\<close>. They are
  never mutated, so a card object is identified with its value: \<^verbatim>\<open>card in hand\<close>,
  \<^verbatim>\<open>hand.remove(card)\<close> (dataclass equality) and \<^verbatim>\<open>card is entry.card\<close> (identity) all
  become equality of values.
\<close>

datatype setup_card =
  SetupCard (setup_id: int) (setup_text: string) (setup_case: string)
    (starts_with_punchline: bool)

datatype punchline_card =
  PunchlineCard (card_id: int) (card_text: "(string \<times> string list) list")

text \<open>
  The exception classes of the module, the two built-in exceptions the code can raise
  (\<^verbatim>\<open>IndexError\<close> from \<^verbatim>\<open>list.pop\<close> and \<^verbatim>\<open>random.choice\<close> on an empty list,
  \<^verbatim>\<open>NotImplementedError\<close>), \<^verbatim>\<open>AttributeError\<close> for a method the state class does not
  have, and the plain \<^verbatim>\<open>Exception\<close> of the default methods of \<^verbatim>\<open>State\<close>, with the
  method's name.
\<close>

datatype error =
    CardNotInPlayerHandError
  | PlayerNotLeadError
  | PlayerNotOwnerError
  | NotAllCardsOpenedError
  | UnknownPlayerError
  | PlayerAlreadyReadyError
  | ScoreTooLowError
  | IndexError
  | NotImplementedError
  | AttributeError
  | NotExpectedInState string

text \<open>
  Python's \<^verbatim>\<open>random\<close> module reads a process-wide generator. The model makes it an
  explicit stream of raw numbers, consumed from the front; a stream that ran out reads as
  zeros. \<^verbatim>\<open>random.shuffle\<close> is the standard library's loop
  \<^verbatim>\<open>for i in reversed(range(1, len(x))): j = randbelow(i + 1); x[i], x[j] = x[j], x[i]\<close>
  and \<^verbatim>\<open>random.choice(seq)\<close> is \<^verbatim>\<open>seq[randbelow(len(seq))]\<close>, an \<^verbatim>\<open>IndexError\<close> on an
  empty sequence.
\<close>

fun randbelow :: "nat \<Rightarrow> nat list \<Rightarrow> nat \<times> nat list" where
  "randbelow n [] = (0, [])"
| "randbelow n (r # g) = (r mod n, g)"

fun shuffle_from :: "nat \<Rightarrow> 'a list \<Rightarrow> nat list \<Rightarrow> 'a list \<times> nat list" where
  "shuffle_from 0 xs g = (xs, g)"
| "shuffle_from (Suc i) xs g =
     (case randbelow (Suc i + 1) g of
        (j, g') \<Rightarrow> shuffle_from i (xs[Suc i := xs ! j, j := xs ! Suc i]) g')"

definition shuffle :: "'a list \<Rightarrow> nat list \<Rightarrow> 'a list \<times> nat list" where
  "shuffle xs g = shuffle_from (length xs - 1) xs g"

definition choice :: "'a list \<Rightarrow> nat list \<Rightarrow> (error + 'a) \<times> nat list" where
  "choice xs g =
     (if xs = [] then (Inl IndexError, g)
      else (case randbelow (length xs) g of (j, g') \<Rightarrow> (Inr (xs ! j), g')))"

section \<open>Deck\<close>

text \<open>
  \<^verbatim>\<open>class Deck\<close>: \<^verbatim>\<open>cards\<close> is the draw pile (drawn from its end, as \<^verbatim>\<open>list.pop()\<close>
  does), \<^verbatim>\<open>dump_pile\<close> is the attribute \<^verbatim>\<open>_dump\<close>. The attribute \<^verbatim>\<open>mapping\<close> is written
  once by the constructor and read by \<^verbatim>\<open>get_card_by_uuid\<close> only; it is not modelled.
\<close>

record 'c deck =
  cards :: "'c list"
  dump_pile :: "'c list"

definition shuffle_deck :: "'c deck \<Rightarrow> nat list \<Rightarrow> 'c deck \<times> nat list" where
  "shuffle_deck d g = (case shuffle (cards d) g of (cs, g') \<Rightarrow> (d\<lparr>cards := cs\<rparr>, g'))"

definition Deck :: "'c list \<Rightarrow> nat list \<Rightarrow> 'c deck \<times> nat list" where
  "Deck cs g = shuffle_deck \<lparr>cards = cs, dump_pile = []\<rparr> g"

definition get_card :: "'c deck \<Rightarrow> nat list \<Rightarrow> (error + 'c) \<times> 'c deck \<times> nat list" where
  "get_card d g =
     (case (if cards d = []
            then shuffle_deck (d\<lparr>cards := dump_pile d, dump_pile := []\<rparr>) g
            else (d, g)) of
        (d1, g1) \<Rightarrow>
          (if cards d1 = [] then (Inl IndexError, d1, g1)
           else (Inr (last (cards d1)), d1\<lparr>cards := butlast (cards d1)\<rparr>, g1)))"

definition dump :: "'c deck \<Rightarrow> 'c list \<Rightarrow> 'c deck" where
  "dump d cs = d\<lparr>dump_pile := dump_pile d @ cs\<rparr>"

text \<open>
  A sequence of deck operations, for statements about every sequence: the run collects
  the cards drawn, and stops at the first failing draw as the exception would.
\<close>

datatype 'c deck_op = Draw | Discard "'c list"

fun run_deck :: "'c deck_op list \<Rightarrow> 'c deck \<Rightarrow> nat list \<Rightarrow> 'c list
    \<Rightarrow> (error + 'c list) \<times> 'c deck \<times> nat list" where
  "run_deck [] d g drawn = (Inr drawn, d, g)"
| "run_deck (Draw # ops) d g drawn =
     (case get_card d g of
        (Inl e, d1, g1) \<Rightarrow> (Inl e, d1, g1)
      | (Inr c, d1, g1) \<Rightarrow> run_deck ops d1 g1 (drawn @ [c]))"
| "run_deck (Discard cs # ops) d g drawn = run_deck ops (dump d cs) g drawn"

fun discarded :: "'c deck_op list \<Rightarrow> 'c list" where
  "discarded [] = []"
| "discarded (Draw # ops) = discarded ops"
| "discarded (Discard cs # ops) = cs @ discarded ops"

section \<open>Players, table, lobby\<close>

text \<open>
  A \<^verbatim>\<open>Player\<close> object is a heap cell: the lobby's lists, the table entries and the grave
  hold references (\<open>player_id\<close>), compared by identity as the source's \<^verbatim>\<open>is\<close> does, and
  the lobby's \<open>heap\<close> maps each reference to the object's mutable fields. Profile,
  token and uuid are never read by the state machine and are left out; the observer is
  modelled by the lobby's log of notifications.
\<close>

type_synonym player_id = nat

record player =
  hand :: "punchline_card list"
  score :: int
  is_ready :: bool
  is_connected :: bool

record card_on_table =
  card :: punchline_card
  player :: player_id
  is_open :: bool

record lobby_settings =
  turn_duration :: "int option"
  winning_score :: int
  finish_delay :: int
  start_turn_delay :: int

text \<open>
  The state classes with their attributes: \<^verbatim>\<open>Turns(setup, timer)\<close> (the timer is the
  handle of its task), \<^verbatim>\<open>Judgement(setup)\<close> with its \<^verbatim>\<open>winner\<close>, and
  \<^verbatim>\<open>Finished(winner, setup)\<close>.
\<close>

datatype state =
    Gathering
  | Turns setup_card nat
  | Judgement setup_card "player_id option"
  | Finished player_id setup_card

text \<open>
  The coroutines handed to \<^verbatim>\<open>asyncio.create_task\<close>: the turn timer of
  \<^verbatim>\<open>Lobby.start_turn\<close>, and the two closures of \<^verbatim>\<open>Judgement.pick_turn_winner\<close>, which keep
  the judgement's setup card and (for \<^verbatim>\<open>finish_game\<close>) the winner.
\<close>

datatype task =
    Turn_timer
  | Finish_game_task setup_card player_id
  | Start_turn_task setup_card

text \<open>The calls on \<^verbatim>\<open>LobbyObserver\<close> that the modelled methods make.\<close>

datatype event =
    Player_joined player_id
  | Player_connected player_id
  | Game_started player_id
  | Turn_started setup_card "int option" "player_id option" int "punchline_card option"
  | Player_ready player_id
  | All_players_ready
  | Turn_ended player_id punchline_card
  | Game_finished player_id
  | Hand_refreshed "punchline_card list"
  | Player_score_changed player_id
  | Table_card_opened card_on_table
  | Player_disconnected player_id
  | Player_left player_id
  | Owner_changed "player_id option"
  | Welcome

text \<open>
  \<^verbatim>\<open>class Lobby\<close>, with what the source keeps outside it made part of the state:
  \<open>heap\<close> (the player objects), \<open>events\<close> (every observer call, with the player whose
  observer received it), \<open>tasks\<close> and \<open>cancelled\<close> (the tasks created on the event loop, and
  the handles cancelled), and \<open>rng\<close> (the random module's stream).
\<close>

record lobby =
  players :: "player_id list"
  lead :: "player_id option"
  owner :: "player_id option"
  table :: "card_on_table list"
  grave :: "player_id set"
  punchlines :: "punchline_card deck"
  setups :: "setup_card deck"
  settings :: lobby_settings
  state :: state
  turn_count :: int
  is_game_endless :: bool
  heap :: "player_id \<Rightarrow> player"
  events :: "(player_id \<times> event) list"
  tasks :: "task list"
  cancelled :: "nat set"
  rng :: "nat list"

definition HAND_SIZE :: nat where
  "HAND_SIZE = 10"

text \<open>
  \<^verbatim>\<open>Player.__init__\<close> and \<^verbatim>\<open>Lobby.__init__\<close>. A fresh heap holds a new player object under
  every reference.
\<close>

definition Player :: player where
  "Player = \<lparr>hand = [], score = 0, is_ready = False, is_connected = False\<rparr>"

definition Lobby ::
  "lobby_settings \<Rightarrow> player_id \<Rightarrow> setup_card deck \<Rightarrow> punchline_card deck \<Rightarrow> nat list \<Rightarrow> lobby" where
  "Lobby st ow su pu g =
     \<lparr>players = [], lead = None, owner = Some ow, table = [], grave = {},
      punchlines = pu, setups = su, settings = st, state = Gathering, turn_count = 0,
      is_game_endless = False, heap = (\<lambda>_. Player), events = [], tasks = [],
      cancelled = {}, rng = g\<rparr>"

definition upd_player :: "player_id \<Rightarrow> (player \<Rightarrow> player) \<Rightarrow> lobby \<Rightarrow> lobby" where
  "upd_player p f l = l\<lparr>heap := (heap l)(p := f (heap l p))\<rparr>"

definition notify :: "player_id list \<Rightarrow> event \<Rightarrow> lobby \<Rightarrow> lobby" where
  "notify ps ev l = l\<lparr>events := events l @ map (\<lambda>q. (q, ev)) ps\<rparr>"

definition create_task :: "task \<Rightarrow> lobby \<Rightarrow> lobby" where
  "create_task t l = l\<lparr>tasks := tasks l @ [t]\<rparr>"

definition cancel :: "nat \<Rightarrow> lobby \<Rightarrow> lobby" where
  "cancel h l = l\<lparr>cancelled := insert h (cancelled l)\<rparr>"

definition add_punchline_card :: "player_id \<Rightarrow> punchline_card \<Rightarrow> lobby \<Rightarrow> lobby" where
  "add_punchline_card p c l = upd_player p (\<lambda>x. x\<lparr>hand := hand x @ [c]\<rparr>) l"

text \<open>\<^verbatim>\<open>self.punchlines.get_card()\<close> and \<^verbatim>\<open>self.setups.get_card()\<close> on the lobby's decks.\<close>

definition draw_punchline :: "lobby \<Rightarrow> (error + punchline_card) \<times> lobby" where
  "draw_punchline l =
     (case get_card (punchlines l) (rng l) of
        (r, d, g) \<Rightarrow> (r, l\<lparr>punchlines := d, rng := g\<rparr>))"

definition draw_setup :: "lobby \<Rightarrow> (error + setup_card) \<times> lobby" where
  "draw_setup l =
     (case get_card (setups l) (rng l) of
        (r, d, g) \<Rightarrow> (r, l\<lparr>setups := d, rng := g\<rparr>))"

definition all_players :: "lobby \<Rightarrow> player_id list" where
  "all_players l = (case lead l of None \<Rightarrow> players l | Some ld \<Rightarrow> ld # players l)"

definition all_players_except :: "lobby \<Rightarrow> player_id \<Rightarrow> player_id list" where
  "all_players_except l p = filter (\<lambda>q. q \<noteq> p) (all_players l)"

definition card_on_table_of :: "lobby \<Rightarrow> player_id \<Rightarrow> card_on_table option" where
  "card_on_table_of l p = find (\<lambda>e. player e = p) (table l)"

definition get_card_from_table :: "lobby \<Rightarrow> punchline_card \<Rightarrow> error + card_on_table" where
  "get_card_from_table l c =
     (case find (\<lambda>e. card e = c) (table l) of
        None \<Rightarrow> Inl NotImplementedError
      | Some e \<Rightarrow> Inr e)"

definition transit_to :: "state \<Rightarrow> lobby \<Rightarrow> lobby" where
  "transit_to s l = l\<lparr>state := s\<rparr>"

definition change_lead :: "lobby \<Rightarrow> (error + unit) \<times> lobby" where
  "change_lead l =
     (let l1 = (case lead l of
                  Some ld \<Rightarrow> l\<lparr>players := players l @ [ld]\<rparr>
                | None \<Rightarrow> l)
      in case players l1 of
           [] \<Rightarrow> (Inl IndexError, l1)
         | p # ps \<Rightarrow> (Inr (), l1\<lparr>players := ps, lead := Some p\<rparr>))"

text \<open>The loop over \<^verbatim>\<open>self.all_players\<close> at the end of \<^verbatim>\<open>Lobby.start_turn\<close>.\<close>

fun start_turn_deal :: "setup_card \<Rightarrow> player_id list \<Rightarrow> lobby \<Rightarrow> (error + unit) \<times> lobby" where
  "start_turn_deal s [] l = (Inr (), l)"
| "start_turn_deal s (p # ps) l =
     (let l1 = upd_player p (\<lambda>x. x\<lparr>is_ready := False\<rparr>) l in
      if length (hand (heap l1 p)) \<noteq> HAND_SIZE then
        (case draw_punchline l1 of
           (Inl e, l2) \<Rightarrow> (Inl e, l2)
         | (Inr new_card, l2) \<Rightarrow>
             start_turn_deal s ps
               (notify [p]
                  (Turn_started s (turn_duration (settings l2)) (lead l2) (turn_count l2)
                     (Some new_card))
                  (add_punchline_card p new_card l2)))
      else
        start_turn_deal s ps
          (notify [p]
             (Turn_started s (turn_duration (settings l1)) (lead l1) (turn_count l1) None)
             l1))"

definition start_turn :: "lobby \<Rightarrow> (error + unit) \<times> lobby" where
  "start_turn l =
     (case change_lead l of
        (Inl e, l1) \<Rightarrow> (Inl e, l1)
      | (Inr _, l1) \<Rightarrow>
          (case draw_setup l1 of
             (Inl e, l2) \<Rightarrow> (Inl e, l2)
           | (Inr new_setup, l2) \<Rightarrow>
               (let l3 = l2\<lparr>turn_count := turn_count l2 + 1\<rparr>;
                    timer = length (tasks l3);
                    l4 = transit_to (Turns new_setup timer) (create_task Turn_timer l3)
                in start_turn_deal new_setup (all_players l4) l4)))"

definition add_player :: "player_id \<Rightarrow> lobby \<Rightarrow> lobby" where
  "add_player p l =
     (let l1 = l\<lparr>players := players l @ [p]\<rparr>
      in notify (all_players l1) (Player_joined p) l1)"

text \<open>
  The loop \<^verbatim>\<open>while len(player.hand) < self.HAND_SIZE\<close> of \<^verbatim>\<open>Lobby.connect\<close>: every round
  draws one card or raises.
\<close>

function top_up :: "player_id \<Rightarrow> lobby \<Rightarrow> (error + unit) \<times> lobby" where
  "top_up p l =
     (if length (hand (heap l p)) < HAND_SIZE then
        (case draw_punchline l of
           (Inl e, l1) \<Rightarrow> (Inl e, l1)
         | (Inr c, l1) \<Rightarrow> top_up p (add_punchline_card p c l1))
      else (Inr (), l))"
  by pat_completeness auto
termination
  by (relation "measure (\<lambda>(p, l). HAND_SIZE - length (hand (heap l p)))")
     (auto simp: draw_punchline_def add_punchline_card_def upd_player_def
        split: prod.splits)

declare top_up.simps [simp del]

definition connect :: "player_id \<Rightarrow> lobby \<Rightarrow> (error + unit) \<times> lobby" where
  "connect p l =
     (case (if p \<notin> set (all_players l) then
              (if p \<notin> grave l then (Inl UnknownPlayerError, l)
               else (Inr (), add_player p (l\<lparr>grave := grave l - {p}\<rparr>)))
            else (Inr (), l)) of
        (Inl e, l1) \<Rightarrow> (Inl e, l1)
      | (Inr _, l1) \<Rightarrow>
          (case (if state l1 \<noteq> Gathering then top_up p l1 else (Inr (), l1)) of
             (Inl e, l2) \<Rightarrow> (Inl e, l2)
           | (Inr _, l2) \<Rightarrow>
               (Inr (), notify (all_players_except l2 p) (Player_connected p) l2)))"

section \<open>Gathering\<close>

fun deal_cards :: "nat \<Rightarrow> player_id \<Rightarrow> lobby \<Rightarrow> (error + unit) \<times> lobby" where
  "deal_cards 0 p l = (Inr (), l)"
| "deal_cards (Suc n) p l =
     (case draw_punchline l of
        (Inl e, l1) \<Rightarrow> (Inl e, l1)
      | (Inr c, l1) \<Rightarrow> deal_cards n p (add_punchline_card p c l1))"

fun deal_hands :: "player_id list \<Rightarrow> lobby \<Rightarrow> (error + unit) \<times> lobby" where
  "deal_hands [] l = (Inr (), l)"
| "deal_hands (p # ps) l =
     (case deal_cards HAND_SIZE p l of
        (Inl e, l1) \<Rightarrow> (Inl e, l1)
      | (Inr _, l1) \<Rightarrow> deal_hands ps (notify [p] (Game_started p) l1))"

definition Gathering_start_game ::
  "player_id \<Rightarrow> lobby_settings \<Rightarrow> setup_card deck \<Rightarrow> punchline_card deck \<Rightarrow> lobby
    \<Rightarrow> (error + unit) \<times> lobby" where
  "Gathering_start_game p lobby_settings new_setups new_punchlines l =
     (if Some p \<noteq> owner l then (Inl PlayerNotOwnerError, l)
      else
        (let l1 = l\<lparr>setups := new_setups, punchlines := new_punchlines,
                     settings := lobby_settings\<rparr>
         in case deal_hands (all_players l1) l1 of
              (Inl e, l2) \<Rightarrow> (Inl e, l2)
            | (Inr _, l2) \<Rightarrow> start_turn l2))"

section \<open>Turns\<close>

definition put_card_on_table ::
  "player_id \<Rightarrow> punchline_card \<Rightarrow> lobby \<Rightarrow> (error + unit) \<times> lobby" where
  "put_card_on_table p c l =
     (if c \<notin> set (hand (heap l p)) then (Inl CardNotInPlayerHandError, l)
      else
        (let l1 = (case card_on_table_of l p of
                     Some prev_card \<Rightarrow>
                       upd_player p (\<lambda>x. x\<lparr>hand := hand x @ [card prev_card]\<rparr>)
                         (l\<lparr>table := remove1 prev_card (table l)\<rparr>)
                   | None \<Rightarrow> l);
             l2 = l1\<lparr>table := table l1 @ [\<lparr>card = c, player = p, is_open = False\<rparr>]\<rparr>;
             l3 = upd_player p (\<lambda>x. x\<lparr>hand := remove1 c (hand x)\<rparr>) l2;
             l4 = upd_player p (\<lambda>x. x\<lparr>is_ready := True\<rparr>) l3
         in (Inr (), notify (all_players l4) (Player_ready p) l4)))"

text \<open>
  The first loop of \<^verbatim>\<open>Turns.end_turn\<close>: a card chosen at random for every player of the
  roster who is connected and not ready.
\<close>

fun auto_submit :: "player_id list \<Rightarrow> lobby \<Rightarrow> (error + unit) \<times> lobby" where
  "auto_submit [] l = (Inr (), l)"
| "auto_submit (p # ps) l =
     (if is_connected (heap l p) \<and> \<not> is_ready (heap l p) then
        (case choice (hand (heap l p)) (rng l) of
           (Inl e, g) \<Rightarrow> (Inl e, l\<lparr>rng := g\<rparr>)
         | (Inr c, g) \<Rightarrow>
             (case put_card_on_table p c (l\<lparr>rng := g\<rparr>) of
                (Inl e, l1) \<Rightarrow> (Inl e, l1)
              | (Inr _, l1) \<Rightarrow> auto_submit ps l1))
      else auto_submit ps l)"

definition end_turn :: "setup_card \<Rightarrow> lobby \<Rightarrow> (error + unit) \<times> lobby" where
  "end_turn s l =
     (case auto_submit (players l) l of
        (Inl e, l1) \<Rightarrow> (Inl e, l1)
      | (Inr _, l1) \<Rightarrow>
          (case shuffle (table l1) (rng l1) of
             (tbl, g) \<Rightarrow>
               (let l2 = l1\<lparr>table := tbl, rng := g\<rparr>;
                    l3 = notify (all_players l2) All_players_ready l2
                in case lead l3 of
                     Some _ \<Rightarrow> (Inr (), transit_to (Judgement s None) l3)
                   | None \<Rightarrow> (Inl NotImplementedError, l3))))"

definition try_end_turn :: "setup_card \<Rightarrow> nat \<Rightarrow> lobby \<Rightarrow> (error + unit) \<times> lobby" where
  "try_end_turn s timer l =
     (if list_ex (\<lambda>pl. is_connected (heap l pl) \<and> \<not> is_ready (heap l pl)) (players l)
      then (Inr (), l)
      else end_turn s (cancel timer l))"

definition make_turn ::
  "setup_card \<Rightarrow> nat \<Rightarrow> player_id \<Rightarrow> punchline_card \<Rightarrow> lobby \<Rightarrow> (error + unit) \<times> lobby" where
  "make_turn s timer p c l =
     (case put_card_on_table p c l of
        (Inl e, l1) \<Rightarrow> (Inl e, l1)
      | (Inr _, l1) \<Rightarrow> try_end_turn s timer l1)"

text \<open>The list comprehension of \<^verbatim>\<open>Turns.refresh_hand\<close>: \<open>n\<close> draws, collected in order.\<close>

fun draw_hand :: "nat \<Rightarrow> lobby \<Rightarrow> (error + punchline_card list) \<times> lobby" where
  "draw_hand 0 l = (Inr [], l)"
| "draw_hand (Suc n) l =
     (case draw_punchline l of
        (Inl e, l1) \<Rightarrow> (Inl e, l1)
      | (Inr c, l1) \<Rightarrow>
          (case draw_hand n l1 of
             (Inl e, l2) \<Rightarrow> (Inl e, l2)
           | (Inr cs, l2) \<Rightarrow> (Inr (c # cs), l2)))"

definition refresh_hand :: "player_id \<Rightarrow> lobby \<Rightarrow> (error + unit) \<times> lobby" where
  "refresh_hand p l =
     (if is_ready (heap l p) then (Inl PlayerAlreadyReadyError, l)
      else
        (case draw_hand HAND_SIZE l of
           (Inl e, l1) \<Rightarrow> (Inl e, l1)
         | (Inr new_hand, l1) \<Rightarrow>
             (let l2 = l1\<lparr>punchlines := dump (punchlines l1) (hand (heap l1 p))\<rparr>;
                  l3 = upd_player p (\<lambda>x. x\<lparr>hand := new_hand\<rparr>) l2
              in if score (heap l3 p) < 0 then (Inl ScoreTooLowError, l3)
                 else
                   (let l4 = upd_player p (\<lambda>x. x\<lparr>score := score x - 1\<rparr>) l3;
                        l5 = notify [p] (Hand_refreshed new_hand) l4
                    in (Inr (), notify (all_players l5) (Player_score_changed p) l5)))))"

section \<open>Judgement\<close>

text \<open>
  \<^verbatim>\<open>Judgement.pick_turn_winner\<close>, on a judgement whose setup card is \<open>s\<close>. The task it
  creates is the last element of \<open>tasks\<close>.
\<close>

definition pick_turn_winner ::
  "setup_card \<Rightarrow> player_id \<Rightarrow> punchline_card \<Rightarrow> lobby \<Rightarrow> (error + unit) \<times> lobby" where
  "pick_turn_winner s p c l =
     (if Some p \<noteq> lead l then (Inl PlayerNotLeadError, l)
      else if list_ex (\<lambda>e. \<not> is_open e) (table l) then (Inl NotAllCardsOpenedError, l)
      else
        (case get_card_from_table l c of
           Inl e \<Rightarrow> (Inl e, l)
         | Inr entry \<Rightarrow>
             (let l1 = upd_player (player entry) (\<lambda>x. x\<lparr>score := score x + 1\<rparr>) l;
                  l2 = l1\<lparr>state := Judgement s (Some (player entry))\<rparr>;
                  l3 = notify (all_players l2) (Turn_ended (player entry) c) l2;
                  l4 = l3\<lparr>punchlines := dump (punchlines l3) (map card (table l3))\<rparr>;
                  l5 = l4\<lparr>table := []\<rparr>
              in if \<not> is_game_endless l5 then
                   (case find (\<lambda>pl. score (heap l5 pl) = winning_score (settings l5))
                           (players l5) of
                      Some pl \<Rightarrow> (Inr (), create_task (Finish_game_task s pl) l5)
                    | None \<Rightarrow> (Inr (), create_task (Start_turn_task s) l5))
                 else (Inr (), create_task (Start_turn_task s) l5))))"

definition Judgement_start_turn :: "setup_card \<Rightarrow> lobby \<Rightarrow> (error + unit) \<times> lobby" where
  "Judgement_start_turn s l = start_turn (l\<lparr>setups := dump (setups l) [s]\<rparr>)"

definition finish_game :: "setup_card \<Rightarrow> player_id \<Rightarrow> lobby \<Rightarrow> lobby" where
  "finish_game s winner l =
     transit_to (Finished winner s) (notify (all_players l) (Game_finished winner) l)"

section \<open>Finished\<close>

definition Finished_start_turn :: "setup_card \<Rightarrow> lobby \<Rightarrow> (error + unit) \<times> lobby" where
  "Finished_start_turn s l = start_turn (l\<lparr>setups := dump (setups l) [s]\<rparr>)"

definition continue_game :: "setup_card \<Rightarrow> player_id \<Rightarrow> lobby \<Rightarrow> (error + unit) \<times> lobby" where
  "continue_game s p l =
     (if Some p \<noteq> owner l then (Inl PlayerNotOwnerError, l)
      else Finished_start_turn s (l\<lparr>is_game_endless := True\<rparr>))"

text \<open>
  \<^verbatim>\<open>Finished.start_game\<close>. Its last line, \<^verbatim>\<open>player.start_game(...)\<close>, dispatches on the
  lobby's state, which the line before has set to \<^verbatim>\<open>Gathering()\<close>: it runs
  \<^verbatim>\<open>Gathering.start_game\<close>.
\<close>

definition Finished_start_game ::
  "player_id \<Rightarrow> lobby_settings \<Rightarrow> setup_card deck \<Rightarrow> punchline_card deck \<Rightarrow> lobby
    \<Rightarrow> (error + unit) \<times> lobby" where
  "Finished_start_game p lobby_settings new_setups new_punchlines l =
     (let l1 = l\<lparr>table := [], turn_count := 0\<rparr>;
          l2 = fold (\<lambda>pl. upd_player pl (\<lambda>x. x\<lparr>hand := [], score := 0\<rparr>)) (all_players l1) l1;
          l3 = transit_to Gathering l2
      in Gathering_start_game p lobby_settings new_setups new_punchlines l3)"

section \<open>Dispatch on the state, and the scheduled tasks\<close>

text \<open>
  \<^verbatim>\<open>Player.start_game\<close>, \<^verbatim>\<open>Player.refresh_hand\<close>, \<^verbatim>\<open>Player.make_turn\<close>,
  \<^verbatim>\<open>Player.pick_turn_winner\<close> and \<^verbatim>\<open>Player.continue_game\<close> call the method of the lobby's
  current state. A state class that does not override a method of \<^verbatim>\<open>State\<close> raises the
  plain exception; \<^verbatim>\<open>start_game\<close> is not a method of \<^verbatim>\<open>State\<close> at all.
\<close>

definition Player_start_game ::
  "player_id \<Rightarrow> lobby_settings \<Rightarrow> setup_card deck \<Rightarrow> punchline_card deck \<Rightarrow> lobby
    \<Rightarrow> (error + unit) \<times> lobby" where
  "Player_start_game p lobby_settings new_setups new_punchlines l =
     (case state l of
        Gathering \<Rightarrow> Gathering_start_game p lobby_settings new_setups new_punchlines l
      | Finished _ _ \<Rightarrow> Finished_start_game p lobby_settings new_setups new_punchlines l
      | _ \<Rightarrow> (Inl AttributeError, l))"

definition Player_refresh_hand :: "player_id \<Rightarrow> lobby \<Rightarrow> (error + unit) \<times> lobby" where
  "Player_refresh_hand p l =
     (case state l of
        Turns _ _ \<Rightarrow> refresh_hand p l
      | _ \<Rightarrow> (Inl (NotExpectedInState ''refresh_hand''), l))"

definition Player_make_turn ::
  "player_id \<Rightarrow> punchline_card \<Rightarrow> lobby \<Rightarrow> (error + card_on_table) \<times> lobby" where
  "Player_make_turn p c l =
     (case state l of
        Turns s timer \<Rightarrow>
          (case make_turn s timer p c l of
             (Inl e, l1) \<Rightarrow> (Inl e, l1)
           | (Inr _, l1) \<Rightarrow> (get_card_from_table l1 c, l1))
      | _ \<Rightarrow> (Inl (NotExpectedInState ''make_turn''), l))"

definition Player_pick_turn_winner ::
  "player_id \<Rightarrow> punchline_card \<Rightarrow> lobby \<Rightarrow> (error + unit) \<times> lobby" where
  "Player_pick_turn_winner p c l =
     (case state l of
        Judgement s _ \<Rightarrow> pick_turn_winner s p c l
      | _ \<Rightarrow> (Inl (NotExpectedInState ''pick_turn_winner''), l))"

definition Player_continue_game :: "player_id \<Rightarrow> lobby \<Rightarrow> (error + unit) \<times> lobby" where
  "Player_continue_game p l =
     (case state l of
        Finished _ s \<Rightarrow> continue_game s p l
      | _ \<Rightarrow> (Inl (NotExpectedInState ''continue_game''), l))"

text \<open>
  What a task does when the event loop runs it after its delay. The turn timer calls
  \<^verbatim>\<open>self.state.end_turn()\<close> on whatever state the lobby is in by then, and only when the
  configured turn duration is truthy (the model reads the duration when the task runs); a
  cancelled task does nothing. The model lets a task run at any moment and more than
  once, which covers every schedule of the event loop.
\<close>

definition run_task :: "nat \<Rightarrow> lobby \<Rightarrow> (error + unit) \<times> lobby" where
  "run_task h l =
     (if h \<in> cancelled l \<or> length (tasks l) \<le> h then (Inr (), l)
      else
        (case tasks l ! h of
           Turn_timer \<Rightarrow>
             (case turn_duration (settings l) of
                None \<Rightarrow> (Inr (), l)
              | Some d \<Rightarrow>
                  if d = 0 then (Inr (), l)
                  else
                    (case state l of
                       Turns s _ \<Rightarrow> end_turn s l
                     | _ \<Rightarrow> (Inl (NotExpectedInState ''end_turn''), l)))
         | Finish_game_task s winner \<Rightarrow> (Inr (), finish_game s winner l)
         | Start_turn_task s \<Rightarrow> Judgement_start_turn s l))"

section \<open>Connecting, disconnecting and leaving\<close>

text \<open>
  \<^verbatim>\<open>Player.connect\<close> and \<^verbatim>\<open>Player.disconnect\<close>: the wrappers around the lobby's methods that
  set the player's connection flag.
\<close>

definition Player_connect :: "player_id \<Rightarrow> lobby \<Rightarrow> (error + unit) \<times> lobby" where
  "Player_connect p l =
     (case connect p l of
        (Inl e, l1) \<Rightarrow> (Inl e, l1)
      | (Inr _, l1) \<Rightarrow>
          (Inr (), notify [p] Welcome (upd_player p (\<lambda>x. x\<lparr>is_connected := True\<rparr>) l1)))"

definition Player_disconnect :: "player_id \<Rightarrow> lobby \<Rightarrow> lobby" where
  "Player_disconnect p l =
     (let l1 = upd_player p (\<lambda>x. x\<lparr>is_connected := False\<rparr>) l
      in notify (all_players_except l1 p) (Player_disconnected p) l1)"

definition change_owner :: "lobby \<Rightarrow> lobby" where
  "change_owner l = l\<lparr>owner := find (\<lambda>q. is_connected (heap l q)) (all_players l)\<rparr>"

text \<open>
  \<^verbatim>\<open>Lobby.remove_player\<close>, ending with the \<^verbatim>\<open>remove_player\<close> hook of the current state:
  \<^verbatim>\<open>Turns\<close> tries to end the turn, \<^verbatim>\<open>Judgement\<close> starts the unimplemented voting when the
  player is the lobby's lead, the other states do nothing.
\<close>

definition remove_player :: "player_id \<Rightarrow> lobby \<Rightarrow> (error + unit) \<times> lobby" where
  "remove_player p l =
     (let l1 = (if lead l = Some p then l\<lparr>lead := None\<rparr> else l);
          l2 = (if p \<in> set (players l1) then l1\<lparr>players := remove1 p (players l1)\<rparr> else l1);
          l3 = (if owner l2 = Some p then
                  (let l2' = change_owner l2
                   in notify (all_players_except l2' p) (Owner_changed (owner l2')) l2')
                else l2);
          l4 = l3\<lparr>grave := insert p (grave l3)\<rparr>;
          l5 = (case find (\<lambda>e. player e = p) (table l4) of
                  Some e \<Rightarrow> l4\<lparr>punchlines := dump (punchlines l4) [card e],
                                table := remove1 e (table l4)\<rparr>
                | None \<Rightarrow> l4);
          l6 = notify (all_players_except l5 p) (Player_left p) l5
      in case state l6 of
           Turns s timer \<Rightarrow> try_end_turn s timer l6
         | Judgement s w \<Rightarrow>
             (if lead l6 = Some p then (Inl NotImplementedError, l6) else (Inr (), l6))
         | _ \<Rightarrow> (Inr (), l6))"

text \<open>
  \<^verbatim>\<open>Judgement.open_table_card\<close>. The entry object is named by its position on the table; a
  position past the end stands for an object that is not on the table any more, whose
  flag the lobby never reads.
\<close>

definition open_table_card :: "player_id \<Rightarrow> nat \<Rightarrow> lobby \<Rightarrow> (error + unit) \<times> lobby" where
  "open_table_card p i l =
     (if lead l \<noteq> Some p then (Inl PlayerNotLeadError, l)
      else if i < length (table l) then
        (let entry = (table l ! i)\<lparr>is_open := True\<rparr>;
             l1 = l\<lparr>table := (table l)[i := entry]\<rparr>
         in (Inr (), notify (all_players l1) (Table_card_opened entry) l1))
      else (Inr (), l))"

definition Player_open_table_card :: "player_id \<Rightarrow> nat \<Rightarrow> lobby \<Rightarrow> (error + unit) \<times> lobby" where
  "Player_open_table_card p i l =
     (case state l of
        Judgement _ _ \<Rightarrow> open_table_card p i l
      | _ \<Rightarrow> (Inl (NotExpectedInState ''open_punchline_card''), l))"

section \<open>The lobby as a state machine\<close>

text \<open>
  Everything that can happen to a lobby: a call of one of the player's or the lobby's
  methods, or the event loop running a task. \<open>step\<close> returns the lobby as the call left
  it, also when the call raised; \<open>run\<close> is a sequence of such steps.
\<close>

datatype action =
    Add_player player_id
  | Connect player_id
  | Disconnect player_id
  | Remove_player player_id
  | Start_game player_id lobby_settings "setup_card deck" "punchline_card deck"
  | Refresh_hand player_id
  | Make_turn player_id punchline_card
  | Open_table_card player_id nat
  | Pick_turn_winner player_id punchline_card
  | Continue_game player_id
  | Run_task nat

fun step :: "action \<Rightarrow> lobby \<Rightarrow> lobby" where
  "step (Add_player p) l = add_player p l"
| "step (Connect p) l = snd (Player_connect p l)"
| "step (Disconnect p) l = Player_disconnect p l"
| "step (Remove_player p) l = snd (remove_player p l)"
| "step (Start_game p st su pu) l = snd (Player_start_game p st su pu l)"
| "step (Refresh_hand p) l = snd (Player_refresh_hand p l)"
| "step (Make_turn p c) l = snd (Player_make_turn p c l)"
| "step (Open_table_card p i) l = snd (Player_open_table_card p i l)"
| "step (Pick_turn_winner p c) l = snd (Player_pick_turn_winner p c l)"
| "step (Continue_game p) l = snd (Player_continue_game p l)"
| "step (Run_task h) l = snd (run_task h l)"

fun run :: "action list \<Rightarrow> lobby \<Rightarrow> lobby" where
  "run [] l = l"
| "run (a # as) l = run as (step a l)"

section \<open>Vocabulary of the statements\<close>

text \<open>The number of cards a deck holds, in both piles.\<close>

definition deck_size :: "'c deck \<Rightarrow> nat" where
  "deck_size d = length (cards d) + length (dump_pile d)"

text \<open>
  How many of the players \<open>ps\<close> hold a hand that is not full, and the cards at the end of
  the hand of \<open>p\<close> in \<open>l'\<close> that the hand did not have in \<open>l\<close>.
\<close>

definition short_hands :: "lobby \<Rightarrow> player_id list \<Rightarrow> nat" where
  "short_hands l ps = length (filter (\<lambda>p. length (hand (heap l p)) \<noteq> HAND_SIZE) ps)"

definition dealt :: "lobby \<Rightarrow> lobby \<Rightarrow> player_id \<Rightarrow> punchline_card list" where
  "dealt l l' p = drop (length (hand (heap l p))) (hand (heap l' p))"

text \<open>The tasks that end the game, and the state that says it has ended.\<close>

fun is_finish :: "task \<Rightarrow> bool" where
  "is_finish (Finish_game_task s w) = True"
| "is_finish _ = False"

fun is_finished :: "state \<Rightarrow> bool" where
  "is_finished (Finished w s) = True"
| "is_finished _ = False"

text \<open>
  Two relations between a lobby and a later one, used in the proofs only. \<open>deals_only\<close>:
  nothing but the punchline deck, the player objects, the notifications and the random
  stream has changed. \<open>advance\<close>: what every call and every task keeps.
\<close>

definition deals_only :: "lobby \<Rightarrow> lobby \<Rightarrow> bool" where
  "deals_only l l' \<longleftrightarrow>
     players l' = players l \<and> lead l' = lead l \<and> owner l' = owner l \<and> table l' = table l
     \<and> grave l' = grave l \<and> setups l' = setups l \<and> settings l' = settings l
     \<and> state l' = state l \<and> turn_count l' = turn_count l
     \<and> is_game_endless l' = is_game_endless l \<and> tasks l' = tasks l
     \<and> cancelled l' = cancelled l"

definition advance :: "lobby \<Rightarrow> lobby \<Rightarrow> bool" where
  "advance l l' \<longleftrightarrow>
     (is_game_endless l \<longrightarrow> is_game_endless l')
     \<and> (distinct (map player (table l)) \<longrightarrow> distinct (map player (table l')))
     \<and> (\<exists>new. tasks l' = tasks l @ new
            \<and> (is_game_endless l \<longrightarrow> (\<forall>t \<in> set new. \<not> is_finish t)))
     \<and> (is_game_endless l \<and> (\<forall>t \<in> set (tasks l). \<not> is_finish t) \<and> \<not> is_finished (state l)
          \<longrightarrow> \<not> is_finished (state l'))"

section \<open>Example data\<close>

text \<open>
  Cards, settings and lobbies used by the concrete evaluations below. The lobbies are
  states of a three-player game (players 1, 2 and 3, owner and first lead 1) with a
  winning score of 1 where nothing else is said; the scenario lemmas further down run
  the model from a new lobby to them. Their notification logs are left empty.
\<close>

abbreviation pc :: "int \<Rightarrow> punchline_card" where
  "pc n \<equiv> PunchlineCard n []"

abbreviation sc :: "int \<Rightarrow> setup_card" where
  "sc n \<equiv> SetupCard n [] [] False"

definition example_settings :: lobby_settings where
  "example_settings =
     \<lparr>turn_duration = None, winning_score = 1, finish_delay = 0, start_turn_delay = 0\<rparr>"

definition example_setups :: "setup_card deck" where
  "example_setups = \<lparr>cards = [sc 1, sc 2, sc 3], dump_pile = []\<rparr>"

definition example_punchlines :: "punchline_card deck" where
  "example_punchlines =
     \<lparr>cards = map pc [1, 2, 3, 4, 5, 6, 7, 8, 9, 10, 11, 12, 13, 14, 15, 16, 17, 18, 19, 20,
                       21, 22, 23, 24, 25, 26, 27, 28, 29, 30, 31, 32, 33, 34, 35, 36, 37, 38,
                       39, 40],
      dump_pile = []\<rparr>"

text \<open>Three players have joined and connected; the game has not started.\<close>

definition gathered :: lobby where
  "gathered =
     \<lparr>players = [1, 2, 3], lead = None, owner = Some 1, table = [], grave = {},
      punchlines = \<lparr>cards = [], dump_pile = []\<rparr>, setups = \<lparr>cards = [], dump_pile = []\<rparr>,
      settings = example_settings, state = Gathering, turn_count = 0,
      is_game_endless = False,
      heap = (\<lambda>_. Player)
        (1 := \<lparr>hand = [], score = 0, is_ready = False, is_connected = True\<rparr>,
         2 := \<lparr>hand = [], score = 0, is_ready = False, is_connected = True\<rparr>,
         3 := \<lparr>hand = [], score = 0, is_ready = False, is_connected = True\<rparr>),
      events = [], tasks = [], cancelled = {}, rng = []\<rparr>"

text \<open>Round 1 has started: ten cards each, player 1 leads.\<close>

definition round1 :: lobby where
  "round1 =
     \<lparr>players = [2, 3], lead = Some 1, owner = Some 1, table = [], grave = {},
      punchlines = \<lparr>cards = map pc [1, 2, 3, 4, 5, 6, 7, 8, 9, 10], dump_pile = []\<rparr>,
      setups = \<lparr>cards = [sc 1, sc 2], dump_pile = []\<rparr>,
      settings = example_settings, state = Turns (sc 3) 0, turn_count = 1,
      is_game_endless = False,
      heap = (\<lambda>_. Player)
        (1 := \<lparr>hand = map pc [40, 39, 38, 37, 36, 35, 34, 33, 32, 31], score = 0,
               is_ready = False, is_connected = True\<rparr>,
         2 := \<lparr>hand = map pc [30, 29, 28, 27, 26, 25, 24, 23, 22, 21], score = 0,
               is_ready = False, is_connected = True\<rparr>,
         3 := \<lparr>hand = map pc [20, 19, 18, 17, 16, 15, 14, 13, 12, 11], score = 0,
               is_ready = False, is_connected = True\<rparr>),
      events = [], tasks = [Turn_timer], cancelled = {}, rng = []\<rparr>"

text \<open>Round 1 after player 2 has refreshed the hand once: the score is -1.\<close>

definition round1_low :: lobby where
  "round1_low =
     round1
       \<lparr>punchlines := \<lparr>cards = [],
                        dump_pile = map pc [30, 29, 28, 27, 26, 25, 24, 23, 22, 21]\<rparr>,
        heap := (heap round1)
          (2 := \<lparr>hand = map pc [10, 9, 8, 7, 6, 5, 4, 3, 2, 1], score = - 1,
                 is_ready = False, is_connected = True\<rparr>)\<rparr>"

text \<open>Round 1 after player 3 has disconnected without submitting.\<close>

definition round1_gone :: lobby where
  "round1_gone = round1\<lparr>heap := (heap round1)
      (3 := \<lparr>hand = map pc [20, 19, 18, 17, 16, 15, 14, 13, 12, 11], score = 0,
               is_ready = False, is_connected = False\<rparr>)\<rparr>"

text \<open>Round 1 after player 2 has submitted card 21.\<close>

definition round1_submitted :: lobby where
  "round1_submitted =
     round1
       \<lparr>table := [\<lparr>card = pc 21, player = 2, is_open = False\<rparr>],
        heap := (heap round1)
          (2 := \<lparr>hand = map pc [30, 29, 28, 27, 26, 25, 24, 23, 22], score = 0,
                 is_ready = True, is_connected = True\<rparr>)\<rparr>"

text \<open>Round 1 after player 3 has submitted card 13, disconnected and left: the player is in the grave with nine cards.\<close>

definition round1_left :: lobby where
  "round1_left =
     round1
       \<lparr>players := [2], grave := {3},
        punchlines := \<lparr>cards = map pc [1, 2, 3, 4, 5, 6, 7, 8, 9, 10], dump_pile = [pc 13]\<rparr>,
        heap := (heap round1)
          (3 := \<lparr>hand = map pc [20, 19, 18, 17, 16, 15, 14, 12, 11], score = 0,
                 is_ready = True, is_connected = False\<rparr>)\<rparr>"

text \<open>Players 2 and 3 have submitted, the lead has opened both cards.\<close>

definition judgement1 :: lobby where
  "judgement1 =
     round1
       \<lparr>table := [\<lparr>card = pc 13, player = 3, is_open = True\<rparr>,
                  \<lparr>card = pc 21, player = 2, is_open = True\<rparr>],
        state := Judgement (sc 3) None,
        heap := (\<lambda>_. Player)
          (1 := \<lparr>hand = map pc [40, 39, 38, 37, 36, 35, 34, 33, 32, 31], score = 0,
                 is_ready = False, is_connected = True\<rparr>,
           2 := \<lparr>hand = map pc [30, 29, 28, 27, 26, 25, 24, 23, 22], score = 0,
                 is_ready = True, is_connected = True\<rparr>,
           3 := \<lparr>hand = map pc [20, 19, 18, 17, 16, 15, 14, 12, 11], score = 0,
                 is_ready = True, is_connected = True\<rparr>),
        cancelled := {0}\<rparr>"

text \<open>As \<open>judgement1\<close>, but the lead has put a card on the table as well.\<close>

definition judgement_lead :: lobby where
  "judgement_lead =
     judgement1
       \<lparr>table := [\<lparr>card = pc 21, player = 2, is_open = True\<rparr>,
                  \<lparr>card = pc 13, player = 3, is_open = True\<rparr>,
                  \<lparr>card = pc 40, player = 1, is_open = True\<rparr>],
        heap := (heap judgement1)
          (1 := \<lparr>hand = map pc [39, 38, 37, 36, 35, 34, 33, 32, 31], score = 0,
                 is_ready = True, is_connected = True\<rparr>)\<rparr>"

text \<open>A judgement with the roster [2] alone and a winning score of 0.\<close>

definition judgement_two :: lobby where
  "judgement_two =
     judgement1
       \<lparr>players := [2],
        table := [\<lparr>card = pc 21, player = 2, is_open = True\<rparr>],
        settings := example_settings\<lparr>winning_score := 0\<rparr>,
        heap := (heap judgement1)(3 := Player)\<rparr>"

text \<open>\<open>judgement1\<close> in endless mode.\<close>

definition judgement_endless :: lobby where
  "judgement_endless = judgement1\<lparr>is_game_endless := True\<rparr>"

text \<open>The lead has picked the card of player 3 (winning score 3), and player 4 has joined without connecting: an empty hand.\<close>

definition late_joiner :: lobby where
  "late_joiner =
     judgement1
       \<lparr>players := [2, 3, 4], table := [],
        punchlines := \<lparr>cards = map pc [1, 2, 3, 4, 5, 6, 7, 8, 9, 10],
                        dump_pile = [pc 13, pc 21]\<rparr>,
        settings := example_settings\<lparr>winning_score := 3\<rparr>,
        state := Judgement (sc 3) (Some 3),
        heap := (heap judgement1)
          (3 := \<lparr>hand = map pc [20, 19, 18, 17, 16, 15, 14, 12, 11], score = 1,
                 is_ready = True, is_connected = True\<rparr>),
        tasks := [Turn_timer, Start_turn_task (sc 3)]\<rparr>"

text \<open>The lead has picked the card of player 3, whose score 1 is the winning score, and the \<^verbatim>\<open>finish_game\<close> task has run.\<close>

definition finished1 :: lobby where
  "finished1 =
     judgement1
       \<lparr>table := [],
        punchlines := \<lparr>cards = map pc [1, 2, 3, 4, 5, 6, 7, 8, 9, 10],
                        dump_pile = [pc 13, pc 21]\<rparr>,
        state := Finished 3 (sc 3),
        heap := (\<lambda>_. Player)
          (1 := \<lparr>hand = map pc [40, 39, 38, 37, 36, 35, 34, 33, 32, 31], score = 0,
                 is_ready = False, is_connected = True\<rparr>,
           2 := \<lparr>hand = map pc [30, 29, 28, 27, 26, 25, 24, 23, 22], score = 0,
                 is_ready = True, is_connected = True\<rparr>,
           3 := \<lparr>hand = map pc [20, 19, 18, 17, 16, 15, 14, 12, 11], score = 1,
                 is_ready = True, is_connected = True\<rparr>),
        tasks := [Turn_timer, Finish_game_task (sc 3) 3]\<rparr>"

text \<open>\<open>finished1\<close> in endless mode.\<close>

definition finished_endless :: lobby where
  "finished_endless = finished1\<lparr>is_game_endless := True\<rparr>"

text \<open>The example settings with a winning score of 3.\<close>

definition long_settings :: lobby_settings where
  "long_settings = example_settings\<lparr>winning_score := 3\<rparr>"

text \<open>
  The owner has started the game of \<open>gathered\<close> with an empty setup deck: every hand was
  dealt, player 1 became the lead, and the draw of the setup card raised \<^verbatim>\<open>IndexError\<close>.
  The lobby is still gathering.
\<close>

definition gathered_dealt :: lobby where
  "gathered_dealt =
     gathered
       \<lparr>players := [2, 3], lead := Some 1,
        punchlines := \<lparr>cards = map pc [1, 2, 3, 4, 5, 6, 7, 8, 9, 10], dump_pile = []\<rparr>,
        heap := heap round1\<rparr>"

text \<open>
  The owner has started the game again, with the example decks: the lobby in which this
  second \<^verbatim>\<open>start_game\<close> calls \<^verbatim>\<open>Lobby.start_turn\<close>, ten more cards in every hand.
\<close>

definition dealt_twice :: lobby where
  "dealt_twice =
     gathered_dealt
       \<lparr>setups := example_setups,
        heap := (\<lambda>_. Player)
          (1 := \<lparr>hand = map pc [40, 39, 38, 37, 36, 35, 34, 33, 32, 31,
                               40, 39, 38, 37, 36, 35, 34, 33, 32, 31], score = 0,
                 is_ready = False, is_connected = True\<rparr>,
           2 := \<lparr>hand = map pc [30, 29, 28, 27, 26, 25, 24, 23, 22, 21,
                               30, 29, 28, 27, 26, 25, 24, 23, 22, 21], score = 0,
                 is_ready = False, is_connected = True\<rparr>,
           3 := \<lparr>hand = map pc [20, 19, 18, 17, 16, 15, 14, 13, 12, 11,
                               20, 19, 18, 17, 16, 15, 14, 13, 12, 11], score = 0,
                 is_ready = False, is_connected = True\<rparr>)\<rparr>"

text \<open>Round 1 as that call of \<^verbatim>\<open>start_turn\<close> leaves it: 21 cards in every hand.\<close>

definition round1_double :: lobby where
  "round1_double =
     round1
       \<lparr>players := [3, 1], lead := Some 2,
        punchlines := \<lparr>cards = map pc [1, 2, 3, 4, 5, 6, 7], dump_pile = []\<rparr>,
        heap := (\<lambda>_. Player)
          (1 := \<lparr>hand = map pc [40, 39, 38, 37, 36, 35, 34, 33, 32, 31,
                               40, 39, 38, 37, 36, 35, 34, 33, 32, 31, 8], score = 0,
                 is_ready = False, is_connected = True\<rparr>,
           2 := \<lparr>hand = map pc [30, 29, 28, 27, 26, 25, 24, 23, 22, 21,
                               30, 29, 28, 27, 26, 25, 24, 23, 22, 21, 10], score = 0,
                 is_ready = False, is_connected = True\<rparr>,
           3 := \<lparr>hand = map pc [20, 19, 18, 17, 16, 15, 14, 13, 12, 11,
                               20, 19, 18, 17, 16, 15, 14, 13, 12, 11, 9], score = 0,
                 is_ready = False, is_connected = True\<rparr>)\<rparr>"

text \<open>
  A game with a winning score of 3. In round 1 player 3 has submitted card 13, left,
  joined again and submitted card 12; player 2 has submitted card 21, and the lead has
  opened both cards and picked card 21. The lobby in which the scheduled task calls
  \<^verbatim>\<open>Lobby.start_turn\<close>, the setup card discarded: player 3 is connected, in the roster, and
  holds eight cards.
\<close>

definition rejoined :: lobby where
  "rejoined =
     round1
       \<lparr>grave := {3},
        punchlines := \<lparr>cards = map pc [1, 2, 3, 4, 5, 6, 7, 8, 9, 10],
                        dump_pile = [pc 13, pc 21, pc 12]\<rparr>,
        setups := \<lparr>cards = [sc 1, sc 2], dump_pile = [sc 3]\<rparr>,
        settings := long_settings,
        state := Judgement (sc 3) (Some 2),
        heap := (\<lambda>_. Player)
          (1 := \<lparr>hand = map pc [40, 39, 38, 37, 36, 35, 34, 33, 32, 31], score = 0,
                 is_ready = False, is_connected = True\<rparr>,
           2 := \<lparr>hand = map pc [30, 29, 28, 27, 26, 25, 24, 23, 22], score = 1,
                 is_ready = True, is_connected = True\<rparr>,
           3 := \<lparr>hand = map pc [20, 19, 18, 17, 16, 15, 14, 11], score = 0,
                 is_ready = True, is_connected = True\<rparr>),
        tasks := [Turn_timer, Start_turn_task (sc 3)],
        cancelled := {0}\<rparr>"

text \<open>Round 1 after player 3 has left and joined again: in the roster, and still in the grave.\<close>

definition round1_readded :: lobby where
  "round1_readded = round1\<lparr>grave := {3}\<rparr>"

section \<open>The random source and the deck\<close>

lemma randbelow_le: "fst (randbelow (Suc n) g) \<le> n"
  by (cases g) (auto simp: less_Suc_eq_le[symmetric])

lemma shuffle_from_length: "length (fst (shuffle_from i xs g)) = length xs"
  by (induction i xs g rule: shuffle_from.induct) (auto split: prod.splits)

lemma shuffle_from_mset: "i < length xs \<Longrightarrow> mset (fst (shuffle_from i xs g)) = mset xs"
proof (induction i xs g rule: shuffle_from.induct)
  case (1 xs g)
  then show ?case by simp
next
  case (2 i xs g)
  obtain j g' where r: "randbelow (Suc i + 1) g = (j, g')"
    by (cases "randbelow (Suc i + 1) g")
  have "j \<le> Suc i" using randbelow_le[of "Suc i" g] r by simp
  with 2 r show ?case by (simp add: mset_swap)
qed

lemma shuffle_mset: "mset (fst (shuffle xs g)) = mset xs"
  by (cases xs) (simp_all add: shuffle_def shuffle_from_mset)

lemma shuffle_length: "length (fst (shuffle xs g)) = length xs"
  by (simp add: shuffle_def shuffle_from_length)

lemma shuffle_Nil_iff: "fst (shuffle xs g) = [] \<longleftrightarrow> xs = []"
  using shuffle_length[of xs g] by (metis length_0_conv)

lemma get_card_nonempty:
  "cards d \<noteq> [] \<Longrightarrow>
   get_card d g = (Inr (last (cards d)), d\<lparr>cards := butlast (cards d)\<rparr>, g)"
  by (simp add: get_card_def)

lemma get_card_recycle:
  "cards d = [] \<Longrightarrow> dump_pile d \<noteq> [] \<Longrightarrow>
   get_card d g =
     (Inr (last (fst (shuffle (dump_pile d) g))),
      d\<lparr>cards := butlast (fst (shuffle (dump_pile d) g)), dump_pile := []\<rparr>,
      snd (shuffle (dump_pile d) g))"
  using shuffle_Nil_iff[of "dump_pile d" g]
  by (simp add: get_card_def shuffle_deck_def case_prod_beta)

lemma get_card_exhausted:
  "cards d = [] \<Longrightarrow> dump_pile d = [] \<Longrightarrow> get_card d g = (Inl IndexError, d, g)"
  by (simp add: get_card_def shuffle_deck_def shuffle_def)

lemma mset_butlast_last: "xs \<noteq> [] \<Longrightarrow> add_mset (last xs) (mset (butlast xs)) = mset xs"
  by (induction xs) auto

lemma get_card_mset:
  assumes "get_card d g = (Inr c, d', g')"
  shows "mset (cards d') + mset (dump_pile d') + {#c#} = mset (cards d) + mset (dump_pile d)"
proof (cases "cards d = []")
  case False
  with assms show ?thesis
    by (auto simp: get_card_nonempty mset_butlast_last)
next
  case True
  show ?thesis
  proof (cases "dump_pile d = []")
    case True
    with \<open>cards d = []\<close> assms show ?thesis by (simp add: get_card_exhausted)
  next
    case False
    let ?s = "fst (shuffle (dump_pile d) g)"
    have ne: "?s \<noteq> []" using False by (simp add: shuffle_Nil_iff)
    have "add_mset (last ?s) (mset (butlast ?s)) = mset (dump_pile d)"
      using mset_butlast_last[OF ne] by (simp add: shuffle_mset)
    with True False assms show ?thesis
      by (auto simp: get_card_recycle)
  qed
qed

text \<open>
  C7. \<^verbatim>\<open>Deck.get_card\<close> fails exactly when the draw pile and the discard pile are both
  empty, and then with the \<^verbatim>\<open>IndexError\<close> of \<^verbatim>\<open>pop\<close>; otherwise it returns a card of the
  two piles. On an empty draw pile with a non-empty discard pile it succeeds, the
  discard pile is emptied, and the new draw pile with the card returned holds exactly
  the cards of the old discard pile.
\<close>

theorem get_card_fails_only_when_exhausted:
  "(fst (get_card d g) = Inl IndexError \<longleftrightarrow> cards d = [] \<and> dump_pile d = [])
   \<and> (\<forall>e. fst (get_card d g) = Inl e \<longrightarrow> cards d = [] \<and> dump_pile d = [])
   \<and> (cards d \<noteq> [] \<or> dump_pile d \<noteq> [] \<longrightarrow>
        (\<exists>c d' g'. get_card d g = (Inr c, d', g') \<and> c \<in> set (cards d) \<union> set (dump_pile d)))
   \<and> (cards d = [] \<and> dump_pile d \<noteq> [] \<longrightarrow>
        (\<exists>c d' g'. get_card d g = (Inr c, d', g') \<and> dump_pile d' = []
           \<and> mset (cards d') + {#c#} = mset (dump_pile d)))"
proof (cases "cards d = []")
  case False
  then show ?thesis by (simp add: get_card_nonempty)
next
  case True
  show ?thesis
  proof (cases "dump_pile d = []")
    case True
    with \<open>cards d = []\<close> show ?thesis by (simp add: get_card_exhausted)
  next
    case False
    let ?s = "fst (shuffle (dump_pile d) g)"
    have ne: "?s \<noteq> []" using False by (simp add: shuffle_Nil_iff)
    have m: "add_mset (last ?s) (mset (butlast ?s)) = mset (dump_pile d)"
      using mset_butlast_last[OF ne] by (simp add: shuffle_mset)
    have "last ?s \<in> set ?s" using ne by simp
    then have "last ?s \<in># mset ?s" by simp
    then have "last ?s \<in> set (dump_pile d)" by (simp add: shuffle_mset)
    with True False m show ?thesis
      by (simp add: get_card_recycle)
  qed
qed

theorem get_card_fails_only_when_exhausted_witness:
  "cards \<lparr>cards = [], dump_pile = [pc 1, pc 2, pc 3]\<rparr> = []
   \<and> dump_pile \<lparr>cards = [], dump_pile = [pc 1, pc 2, pc 3]\<rparr> \<noteq> []
   \<and> (\<exists>c d' g'. get_card \<lparr>cards = [], dump_pile = [pc 1, pc 2, pc 3]\<rparr> [4, 0] = (Inr c, d', g')
        \<and> dump_pile d' = [] \<and> mset (cards d') + {#c#} = mset [pc 1, pc 2, pc 3])
   \<and> get_card \<lparr>cards = [], dump_pile = [pc 1, pc 2, pc 3]\<rparr> [4, 0]
       = (Inr (pc 2), \<lparr>cards = [pc 3, pc 1], dump_pile = []\<rparr>, [])
   \<and> fst (get_card \<lparr>cards = [], dump_pile = ([] :: punchline_card list)\<rparr> [4, 0])
       = Inl IndexError"
  using get_card_fails_only_when_exhausted
          [of "\<lparr>cards = [], dump_pile = [pc 1, pc 2, pc 3]\<rparr>" "[4, 0]"]
        get_card_fails_only_when_exhausted
          [of "\<lparr>cards = [], dump_pile = ([] :: punchline_card list)\<rparr>" "[4, 0]"]
  by (simp add: get_card_def shuffle_deck_def shuffle_def numeral_2_eq_2)

text \<open>
  C6, as the code has it. A draw takes its card out of the two piles, so their union
  alone is not invariant. What every sequence of draws and discards keeps is the
  balance: the draw pile, the discard pile and the cards drawn so far together are the
  cards the deck started with and the cards discarded into it.
\<close>

theorem deck_cards_conserved:
  "run_deck ops d g drawn = (Inr drawn', d', g') \<Longrightarrow>
   mset (cards d') + mset (dump_pile d') + mset drawn' =
   mset (cards d) + mset (dump_pile d) + mset drawn + mset (discarded ops)"
proof (induction ops d g drawn rule: run_deck.induct)
  case (1 d g drawn)
  then show ?case by simp
next
  case (2 ops d g drawn)
  obtain r d1 g1 where gc: "get_card d g = (r, d1, g1)" by (cases "get_card d g")
  with 2 obtain c where r: "r = Inr c" by (cases r) auto
  from 2(1)[OF gc[unfolded r, symmetric] refl refl] 2(2) gc r
  have "mset (cards d') + mset (dump_pile d') + mset drawn' =
        mset (cards d1) + mset (dump_pile d1) + mset (drawn @ [c]) + mset (discarded ops)"
    by simp
  with get_card_mset[OF gc[unfolded r]] show ?case by (simp add: ac_simps)
next
  case (3 cs ops d g drawn)
  then show ?case by (simp add: dump_def ac_simps)
qed

theorem deck_cards_conserved_witness:
  "run_deck [Draw, Discard [pc 2], Draw] \<lparr>cards = [pc 1, pc 2], dump_pile = []\<rparr> [] []
     = (Inr [pc 2, pc 1], \<lparr>cards = [], dump_pile = [pc 2]\<rparr>, [])
   \<and> mset (cards \<lparr>cards = [], dump_pile = [pc 2]\<rparr>)
       + mset (dump_pile \<lparr>cards = [], dump_pile = [pc 2]\<rparr>) + mset [pc 2, pc 1]
     = mset [pc 1, pc 2] + mset [pc 2]"
proof -
  have run: "run_deck [Draw, Discard [pc 2], Draw] \<lparr>cards = [pc 1, pc 2], dump_pile = []\<rparr> [] []
     = (Inr [pc 2, pc 1], \<lparr>cards = [], dump_pile = [pc 2]\<rparr>, [])"
    by (simp add: get_card_def dump_def)
  show ?thesis using run deck_cards_conserved[OF run] by simp
qed

theorem deck_piles_not_invariant_counterexample:
  "Deck [pc 1] [] = (\<lparr>cards = [pc 1], dump_pile = []\<rparr>, [])
   \<and> run_deck [Draw] \<lparr>cards = [pc 1], dump_pile = []\<rparr> [] []
       = (Inr [pc 1], \<lparr>cards = [], dump_pile = []\<rparr>, [])
   \<and> mset (cards \<lparr>cards = [], dump_pile = ([] :: punchline_card list)\<rparr>)
       + mset (dump_pile \<lparr>cards = [], dump_pile = ([] :: punchline_card list)\<rparr>)
     \<noteq> mset [pc 1]"
  by (simp add: Deck_def shuffle_deck_def shuffle_def get_card_def)

section \<open>Loops on numerals\<close>

text \<open>The loops counted by a numeral, one round at a time, for the evaluations.\<close>

lemma deal_cards_numeral:
  "deal_cards (numeral k) p l =
     (case draw_punchline l of
        (Inl e, l1) \<Rightarrow> (Inl e, l1)
      | (Inr c, l1) \<Rightarrow> deal_cards (pred_numeral k) p (add_punchline_card p c l1))"
  by (simp add: numeral_eq_Suc)

lemma draw_hand_numeral:
  "draw_hand (numeral k) l =
     (case draw_punchline l of
        (Inl e, l1) \<Rightarrow> (Inl e, l1)
      | (Inr c, l1) \<Rightarrow>
          (case draw_hand (pred_numeral k) l1 of
             (Inl e, l2) \<Rightarrow> (Inl e, l2)
           | (Inr cs, l2) \<Rightarrow> (Inr (c # cs), l2)))"
  by (simp add: numeral_eq_Suc)

lemma shuffle_from_numeral:
  "shuffle_from (numeral k) xs g =
     (case randbelow (numeral k + 1) g of
        (j, g') \<Rightarrow>
          shuffle_from (pred_numeral k) (xs[numeral k := xs ! j, j := xs ! numeral k]) g')"
  by (simp add: numeral_eq_Suc)

section \<open>The spec's scenarios on the model\<close>

text \<open>
  The model run from a new lobby: three players join and connect, the owner starts the
  game (ten cards each, player 1 leads), players 2 and 3 submit, the lead opens both cards
  and picks one, and the lobby finishes with that player as winner. Each lemma reaches the
  next example lobby, up to the notification log.
\<close>

lemma scenario_gather:
  "(run [Add_player 1, Connect 1, Add_player 2, Connect 2, Add_player 3, Connect 3]
      (Lobby example_settings 1 \<lparr>cards = [], dump_pile = []\<rparr> \<lparr>cards = [], dump_pile = []\<rparr> []))
     \<lparr>events := []\<rparr> = gathered"
  by (simp add: gathered_def Lobby_def Player_def
        add_player_def Player_connect_def connect_def all_players_except_def
        notify_def upd_player_def all_players_def Let_def)

lemma scenario_start:
  "(run [Start_game 1 example_settings example_setups example_punchlines] gathered)
      \<lparr>events := []\<rparr> = round1"
  by (simp add: round1_def gathered_def Player_def example_setups_def example_punchlines_def
        Player_start_game_def Gathering_start_game_def HAND_SIZE_def deal_cards_numeral
        draw_punchline_def draw_setup_def get_card_def add_punchline_card_def
        start_turn_def change_lead_def create_task_def
        transit_to_def notify_def upd_player_def all_players_def Let_def)

lemma scenario_round1_to_judgement:
  "(run [Make_turn 2 (pc 21), Make_turn 3 (pc 13), Open_table_card 1 0, Open_table_card 1 1]
      round1)\<lparr>events := []\<rparr> = judgement1"
  by (simp add: round1_def judgement1_def Player_make_turn_def make_turn_def
        put_card_on_table_def card_on_table_of_def try_end_turn_def end_turn_def
        Player_open_table_card_def open_table_card_def get_card_from_table_def
        shuffle_def cancel_def transit_to_def notify_def upd_player_def all_players_def Let_def)

lemma scenario_judgement_to_finished:
  "(run [Pick_turn_winner 1 (pc 13), Run_task 1] judgement1)\<lparr>events := []\<rparr> = finished1"
  by (simp add: judgement1_def round1_def finished1_def Player_pick_turn_winner_def
        pick_turn_winner_def get_card_from_table_def run_task_def finish_game_def dump_def
        example_settings_def
        create_task_def transit_to_def notify_def upd_player_def all_players_def Let_def)

lemma scenario_refresh:
  "fst (Player_refresh_hand 2 round1) = Inr ()
   \<and> (snd (Player_refresh_hand 2 round1))\<lparr>events := []\<rparr> = round1_low"
  by (simp add: round1_def round1_low_def Player_refresh_hand_def refresh_hand_def
        HAND_SIZE_def draw_hand_numeral draw_punchline_def get_card_def dump_def
        notify_def upd_player_def all_players_def Let_def)

lemma scenario_disconnect: "(run [Disconnect 3] round1)\<lparr>events := []\<rparr> = round1_gone"
  by (simp add: round1_def round1_gone_def Player_disconnect_def all_players_except_def
        notify_def upd_player_def all_players_def Let_def)

lemma scenario_submitted:
  "fst (Player_make_turn 2 (pc 21) round1) = Inr \<lparr>card = pc 21, player = 2, is_open = False\<rparr>
   \<and> (snd (Player_make_turn 2 (pc 21) round1))\<lparr>events := []\<rparr> = round1_submitted"
  by (simp add: round1_def round1_submitted_def Player_make_turn_def make_turn_def
        put_card_on_table_def card_on_table_of_def try_end_turn_def get_card_from_table_def
        notify_def upd_player_def all_players_def Let_def)

lemma scenario_left:
  "(run [Make_turn 3 (pc 13), Disconnect 3, Remove_player 3] round1)\<lparr>events := []\<rparr>
   = round1_left"
  by (simp add: round1_def round1_left_def Player_make_turn_def make_turn_def
        put_card_on_table_def card_on_table_of_def try_end_turn_def get_card_from_table_def
        Player_disconnect_def remove_player_def all_players_except_def dump_def fun_eq_iff
        notify_def upd_player_def all_players_def Let_def)

lemma scenario_judgement_lead:
  "(run [Make_turn 1 (pc 40), Make_turn 2 (pc 21), Make_turn 3 (pc 13),
         Open_table_card 1 0, Open_table_card 1 1, Open_table_card 1 2] round1)
     \<lparr>events := []\<rparr> = judgement_lead"
  by (simp add: round1_def judgement1_def judgement_lead_def Player_make_turn_def make_turn_def
        put_card_on_table_def card_on_table_of_def try_end_turn_def end_turn_def
        Player_open_table_card_def open_table_card_def get_card_from_table_def
        shuffle_def shuffle_from_numeral fun_eq_iff
        cancel_def transit_to_def notify_def upd_player_def all_players_def Let_def)

lemma scenario_late_joiner:
  "(run [Pick_turn_winner 1 (pc 13), Add_player 4]
      (judgement1\<lparr>settings := example_settings\<lparr>winning_score := 3\<rparr>\<rparr>))\<lparr>events := []\<rparr>
   = late_joiner"
  by (simp add: judgement1_def round1_def late_joiner_def Player_pick_turn_winner_def
        pick_turn_winner_def get_card_from_table_def dump_def add_player_def
        example_settings_def
        create_task_def transit_to_def notify_def upd_player_def all_players_def Let_def)

text \<open>
  A start of the game that fails and is repeated: the first call, with an empty setup
  deck, deals every hand and raises in \<^verbatim>\<open>Lobby.start_turn\<close> before the state changes; the
  second call deals every hand again and enters \<^verbatim>\<open>Lobby.start_turn\<close> in the lobby
  \<open>dealt_twice\<close>.
\<close>

lemma scenario_failed_start:
  "fst (Player_start_game 1 example_settings \<lparr>cards = [], dump_pile = []\<rparr> example_punchlines
          gathered) = Inl IndexError
   \<and> (snd (Player_start_game 1 example_settings \<lparr>cards = [], dump_pile = []\<rparr>
              example_punchlines gathered))\<lparr>events := []\<rparr> = gathered_dealt"
  by (simp add: gathered_dealt_def round1_def gathered_def Player_def example_punchlines_def
        Player_start_game_def Gathering_start_game_def HAND_SIZE_def deal_cards_numeral
        draw_punchline_def draw_setup_def get_card_def add_punchline_card_def
        shuffle_deck_def shuffle_def
        start_turn_def change_lead_def create_task_def fun_eq_iff
        transit_to_def notify_def upd_player_def all_players_def Let_def)

lemma scenario_dealt_twice:
  "fst (deal_hands (all_players gathered_dealt)
          (gathered_dealt\<lparr>setups := example_setups, punchlines := example_punchlines,
                           settings := example_settings\<rparr>)) = Inr ()
   \<and> (snd (deal_hands (all_players gathered_dealt)
          (gathered_dealt\<lparr>setups := example_setups, punchlines := example_punchlines,
                           settings := example_settings\<rparr>)))\<lparr>events := []\<rparr> = dealt_twice"
  by (simp add: dealt_twice_def gathered_dealt_def round1_def gathered_def Player_def
        example_punchlines_def example_setups_def
        HAND_SIZE_def deal_cards_numeral
        draw_punchline_def get_card_def add_punchline_card_def fun_eq_iff
        notify_def upd_player_def all_players_def Let_def)

lemma scenario_retried_start:
  "Player_start_game 1 example_settings example_setups example_punchlines gathered_dealt
     = start_turn (snd (deal_hands (all_players gathered_dealt)
          (gathered_dealt\<lparr>setups := example_setups, punchlines := example_punchlines,
                           settings := example_settings\<rparr>)))"
proof -
  have st: "state gathered_dealt = Gathering" "owner gathered_dealt = Some 1"
    by (simp_all add: gathered_dealt_def gathered_def)
  obtain r l2 where d: "deal_hands (all_players gathered_dealt)
          (gathered_dealt\<lparr>setups := example_setups, punchlines := example_punchlines,
                           settings := example_settings\<rparr>) = (r, l2)"
    by (cases "deal_hands (all_players gathered_dealt)
          (gathered_dealt\<lparr>setups := example_setups, punchlines := example_punchlines,
                           settings := example_settings\<rparr>)")
  with scenario_dealt_twice have r: "r = Inr ()" by simp
  have ap: "all_players (gathered_dealt\<lparr>setups := example_setups,
              punchlines := example_punchlines, settings := example_settings\<rparr>)
            = all_players gathered_dealt"
    by (simp add: all_players_def split: option.splits)
  show ?thesis
    by (simp add: Player_start_game_def Gathering_start_game_def Let_def st ap d r)
qed

lemma scenario_round1_double:
  "(snd (start_turn dealt_twice))\<lparr>events := []\<rparr> = round1_double"
  by (simp add: round1_double_def dealt_twice_def gathered_dealt_def round1_def gathered_def
        Player_def example_setups_def example_settings_def HAND_SIZE_def
        draw_punchline_def draw_setup_def get_card_def add_punchline_card_def
        start_turn_def change_lead_def create_task_def fun_eq_iff
        transit_to_def notify_def upd_player_def all_players_def Let_def)

lemma scenario_twice_started:
  "(run [Start_game 1 example_settings \<lparr>cards = [], dump_pile = []\<rparr> example_punchlines,
         Start_game 1 example_settings example_setups example_punchlines] gathered)
      \<lparr>events := []\<rparr> = round1_double"
  by (simp add: round1_double_def round1_def gathered_def Player_def example_setups_def
        example_punchlines_def
        Player_start_game_def Gathering_start_game_def HAND_SIZE_def deal_cards_numeral
        draw_punchline_def draw_setup_def get_card_def add_punchline_card_def
        shuffle_deck_def shuffle_def
        start_turn_def change_lead_def create_task_def fun_eq_iff
        transit_to_def notify_def upd_player_def all_players_def Let_def)

text \<open>
  A player who leaves and joins again during a round, by \<^verbatim>\<open>Lobby.remove_player\<close> and
  \<^verbatim>\<open>Lobby.add_player\<close>: the player stays in the grave, and a second submission in the
  same round leaves eight cards in the hand when the scheduled task starts the next round.
\<close>

lemma scenario_readded:
  "(run [Remove_player 3, Add_player 3] round1)\<lparr>events := []\<rparr> = round1_readded"
  by (simp add: round1_def round1_readded_def try_end_turn_def
        remove_player_def all_players_except_def add_player_def fun_eq_iff
        notify_def upd_player_def all_players_def Let_def)

lemma scenario_long_start:
  "(run [Start_game 1 long_settings example_setups example_punchlines] gathered)
      \<lparr>events := []\<rparr> = round1\<lparr>settings := long_settings\<rparr>"
  by (simp add: round1_def gathered_def Player_def example_setups_def example_punchlines_def
        long_settings_def
        Player_start_game_def Gathering_start_game_def HAND_SIZE_def deal_cards_numeral
        draw_punchline_def draw_setup_def get_card_def add_punchline_card_def
        start_turn_def change_lead_def create_task_def
        transit_to_def notify_def upd_player_def all_players_def Let_def)

lemma scenario_rejoined:
  "(run [Make_turn 3 (pc 13), Remove_player 3, Add_player 3, Make_turn 3 (pc 12),
         Make_turn 2 (pc 21), Open_table_card 1 0, Open_table_card 1 1,
         Pick_turn_winner 1 (pc 21)]
      (round1\<lparr>settings := long_settings\<rparr>))\<lparr>events := []\<rparr>
     = rejoined\<lparr>setups := \<lparr>cards = [sc 1, sc 2], dump_pile = []\<rparr>\<rparr>"
  by (simp add: round1_def rejoined_def long_settings_def example_settings_def
        Player_make_turn_def make_turn_def
        put_card_on_table_def card_on_table_of_def try_end_turn_def end_turn_def
        remove_player_def all_players_except_def add_player_def dump_def
        Player_open_table_card_def open_table_card_def get_card_from_table_def
        Player_pick_turn_winner_def pick_turn_winner_def
        shuffle_def shuffle_from_numeral fun_eq_iff
        cancel_def create_task_def transit_to_def notify_def upd_player_def all_players_def Let_def)

lemma scenario_rejoined_task:
  "run_task 1 (rejoined\<lparr>setups := \<lparr>cards = [sc 1, sc 2], dump_pile = []\<rparr>\<rparr>)
     = start_turn rejoined"
  by (simp add: run_task_def Judgement_start_turn_def dump_def rejoined_def round1_def)

section \<open>What dealing leaves alone\<close>

lemma deals_only_refl: "deals_only l l"
  by (simp add: deals_only_def)

lemma deals_only_trans: "deals_only l l1 \<Longrightarrow> deals_only l1 l2 \<Longrightarrow> deals_only l l2"
  by (simp add: deals_only_def)

lemma deals_only_all_players: "deals_only l l' \<Longrightarrow> all_players l' = all_players l"
  by (simp add: deals_only_def all_players_def split: option.splits)

lemma deals_only_draw_punchline: "deals_only l (snd (draw_punchline l))"
  by (simp add: deals_only_def draw_punchline_def case_prod_beta)

lemma deals_only_upd_player: "deals_only l (upd_player p f l)"
  by (simp add: deals_only_def upd_player_def)

lemma deals_only_notify: "deals_only l (notify ps ev l)"
  by (simp add: deals_only_def notify_def)

lemma deals_only_add_punchline_card: "deals_only l (add_punchline_card p c l)"
  by (simp add: add_punchline_card_def deals_only_upd_player)

lemma deals_only_deal_cards: "deals_only l0 l \<Longrightarrow> deals_only l0 (snd (deal_cards n p l))"
proof (induction n arbitrary: l)
  case 0
  then show ?case by simp
next
  case (Suc n)
  obtain r l1 where d: "draw_punchline l = (r, l1)" by (cases "draw_punchline l")
  have 1: "deals_only l0 l1"
    using deals_only_trans[OF Suc.prems] deals_only_draw_punchline[of l] d by simp
  show ?case
  proof (cases r)
    case (Inl e)
    with d 1 show ?thesis by simp
  next
    case (Inr c)
    have "deals_only l0 (add_punchline_card p c l1)"
      using 1 deals_only_add_punchline_card deals_only_trans by blast
    from Suc.IH[OF this] d Inr show ?thesis by simp
  qed
qed

lemma deals_only_draw: "deals_only l0 l \<Longrightarrow> draw_punchline l = (r, l1) \<Longrightarrow> deals_only l0 l1"
  using deals_only_draw_punchline[of l] deals_only_trans by fastforce

lemma deals_only_add: "deals_only l0 l \<Longrightarrow> deals_only l0 (add_punchline_card p c l)"
  using deals_only_add_punchline_card deals_only_trans by blast

lemma deals_only_upd: "deals_only l0 l \<Longrightarrow> deals_only l0 (upd_player p f l)"
  using deals_only_upd_player deals_only_trans by blast

lemma deals_only_note: "deals_only l0 l \<Longrightarrow> deals_only l0 (notify ps ev l)"
  using deals_only_notify deals_only_trans by blast

lemma deals_only_deal_cards': "deals_only l0 l \<Longrightarrow> deals_only l0 (snd (deal_cards n p l))"
  by (induction n arbitrary: l)
     (auto split: prod.splits sum.splits intro: deals_only_draw deals_only_add)

lemma deals_only_deal_hands: "deals_only l0 l \<Longrightarrow> deals_only l0 (snd (deal_hands ps l))"
proof (induction ps arbitrary: l)
  case Nil
  then show ?case by simp
next
  case (Cons p ps)
  have 1: "deals_only l0 (snd (deal_cards HAND_SIZE p l))"
    using Cons.prems by (rule deals_only_deal_cards)
  show ?case
  proof (cases "deal_cards HAND_SIZE p l")
    case (Pair r l1)
    with 1 Cons.IH[of "notify [p] (Game_started p) l1"] show ?thesis
      by (cases r) (auto intro: deals_only_note)
  qed
qed

lemma deals_only_draw_hand: "deals_only l0 l \<Longrightarrow> deals_only l0 (snd (draw_hand n l))"
proof (induction n arbitrary: l)
  case 0
  then show ?case by simp
next
  case (Suc n)
  obtain r l1 where d: "draw_punchline l = (r, l1)" by (cases "draw_punchline l")
  have l1: "deals_only l0 l1" using Suc.prems d by (rule deals_only_draw)
  show ?case
  proof (cases r)
    case (Inl e)
    with d l1 show ?thesis by simp
  next
    case (Inr c)
    with d Suc.IH[OF l1] show ?thesis
      by (cases "draw_hand n l1") (auto split: sum.splits)
  qed
qed

lemma deals_only_top_up: "deals_only l0 l \<Longrightarrow> deals_only l0 (snd (top_up p l))"
proof (induction p l rule: top_up.induct)
  case (1 p l)
  show ?case
  proof (cases "length (hand (heap l p)) < HAND_SIZE")
    case False
    with 1(2) show ?thesis by (simp add: top_up.simps[of p l])
  next
    case True
    obtain r l1 where d: "draw_punchline l = (r, l1)" by (cases "draw_punchline l")
    have l1: "deals_only l0 l1" using 1(2) d by (rule deals_only_draw)
    show ?thesis
    proof (cases r)
      case (Inl e)
      with True d l1 show ?thesis by (simp add: top_up.simps[of p l])
    next
      case (Inr c)
      from 1(1)[OF True d[symmetric] Inr deals_only_add[OF l1]] True d Inr
      show ?thesis by (simp add: top_up.simps[of p l])
    qed
  qed
qed

lemma deals_only_start_turn_deal:
  "deals_only l0 l \<Longrightarrow> deals_only l0 (snd (start_turn_deal s ps l))"
proof (induction ps arbitrary: l)
  case Nil
  then show ?case by simp
next
  case (Cons p ps)
  let ?l1 = "upd_player p (\<lambda>x. x\<lparr>is_ready := False\<rparr>) l"
  have l1: "deals_only l0 ?l1" using Cons.prems by (rule deals_only_upd)
  show ?case
  proof (cases "length (hand (heap ?l1 p)) \<noteq> HAND_SIZE")
    case False
    with Cons.IH[OF deals_only_note[OF l1]] show ?thesis by (simp add: Let_def)
  next
    case True
    obtain r l2 where d: "draw_punchline ?l1 = (r, l2)" by (cases "draw_punchline ?l1")
    have l2: "deals_only l0 l2" using l1 d by (rule deals_only_draw)
    show ?thesis
    proof (cases r)
      case (Inl e)
      with True d l2 show ?thesis by (simp add: Let_def)
    next
      case (Inr c)
      with True d Cons.IH[OF deals_only_note[OF deals_only_add[OF l2]]] show ?thesis
        by (simp add: Let_def)
    qed
  qed
qed

section \<open>Deck size and the top-up loop\<close>

lemma get_card_size_ok:
  "get_card d g = (Inr c, d', g') \<Longrightarrow> Suc (deck_size d') = deck_size d"
  using get_card_mset[of d g c d' g']
  by (metis deck_size_def size_mset size_union size_add_mset size_empty add_Suc_right add_0_right union_mset_add_mset_right)

lemma get_card_size_err:
  "get_card d g = (Inl e, d', g') \<Longrightarrow> e = IndexError \<and> deck_size d = 0 \<and> d' = d \<and> g' = g"
  using get_card_nonempty[of d g] get_card_recycle[of d g] get_card_exhausted[of d g]
  by (cases "cards d = []"; cases "dump_pile d = []") (auto simp: deck_size_def)

lemma get_card_size_pos:
  "0 < deck_size d \<Longrightarrow> \<exists>c d' g'. get_card d g = (Inr c, d', g')"
  using get_card_nonempty[of d g] get_card_recycle[of d g]
  by (cases "cards d = []"; cases "dump_pile d = []") (auto simp: deck_size_def)

lemma draw_punchline_Inr:
  "draw_punchline l = (Inr c, l1) \<Longrightarrow>
   heap l1 = heap l \<and> events l1 = events l \<and> Suc (deck_size (punchlines l1)) = deck_size (punchlines l)"
  by (auto simp: draw_punchline_def split: prod.splits dest: get_card_size_ok)

lemma draw_punchline_Inl:
  "draw_punchline l = (Inl e, l1) \<Longrightarrow>
   e = IndexError \<and> deck_size (punchlines l) = 0 \<and> heap l1 = heap l \<and> events l1 = events l"
  by (auto simp: draw_punchline_def split: prod.splits dest: get_card_size_err)

lemma draw_punchline_pos:
  "0 < deck_size (punchlines l) \<Longrightarrow> \<exists>c l1. draw_punchline l = (Inr c, l1)"
  using get_card_size_pos[of "punchlines l" "rng l"]
  by (auto simp: draw_punchline_def)

lemma draw_punchline_get_card:
  "draw_punchline l = (r, l1) \<Longrightarrow>
   get_card (punchlines l) (rng l) = (r, punchlines l1, rng l1) \<and> heap l1 = heap l"
  by (auto simp: draw_punchline_def split: prod.splits)

lemma heap_add_punchline_card:
  "heap (add_punchline_card p c l) q =
     (if q = p then (heap l p)\<lparr>hand := hand (heap l p) @ [c]\<rparr> else heap l q)"
  by (simp add: add_punchline_card_def upd_player_def)

lemma add_punchline_card_frame:
  "events (add_punchline_card p c l) = events l"
  "punchlines (add_punchline_card p c l) = punchlines l"
  by (simp_all add: add_punchline_card_def upd_player_def)



section \<open>Connecting\<close>


lemma connect_known:
  assumes "p \<in> set (all_players l) \<or> p \<in> grave l"
  defines "l1 \<equiv> (if p \<in> set (all_players l) then l
                  else add_player p (l\<lparr>grave := grave l - {p}\<rparr>))"
  shows "connect p l =
           (if state l = Gathering then
              (Inr (), notify (all_players_except l1 p) (Player_connected p) l1)
            else
              (case top_up p l1 of
                 (Inl e, l2) \<Rightarrow> (Inl e, l2)
               | (Inr _, l2) \<Rightarrow>
                   (Inr (), notify (all_players_except l2 p) (Player_connected p) l2)))"
    and "heap l1 = heap l" and "punchlines l1 = punchlines l" and "state l1 = state l"
    and "grave l1 = (if p \<in> set (all_players l) then grave l else grave l - {p})"
    and "players l1 = (if p \<in> set (all_players l) then players l else players l @ [p])"
    and "lead l1 = lead l"
  using assms
  by (auto simp: connect_def add_player_def notify_def Let_def split: prod.splits sum.splits)




section \<open>Starting a turn\<close>

lemma heap_upd_player: "heap (upd_player p f l) q = (if q = p then f (heap l p) else heap l q)"
  by (simp add: upd_player_def)

lemma upd_player_frame:
  "punchlines (upd_player p f l) = punchlines l" "events (upd_player p f l) = events l"
  "rng (upd_player p f l) = rng l"
  by (simp_all add: upd_player_def)

lemma notify_frame:
  "heap (notify ps ev l) = heap l" "punchlines (notify ps ev l) = punchlines l"
  "table (notify ps ev l) = table l" "rng (notify ps ev l) = rng l"
  by (simp_all add: notify_def)

lemma draw_punchline_upd_player:
  "draw_punchline (upd_player p f l) = (r, l2) \<Longrightarrow>
   heap l2 = heap (upd_player p f l)
   \<and> (case r of Inl e \<Rightarrow> deck_size (punchlines l) = 0
               | Inr c \<Rightarrow> Suc (deck_size (punchlines l2)) = deck_size (punchlines l))"
  using draw_punchline_Inr[of "upd_player p f l" _ l2] draw_punchline_Inl[of "upd_player p f l" _ l2]
  by (cases r) (simp_all add: upd_player_frame)

lemma start_turn_deal_other:
  "q \<notin> set ps \<Longrightarrow> heap (snd (start_turn_deal s ps l)) q = heap l q"
proof (induction ps arbitrary: l)
  case Nil
  then show ?case by simp
next
  case (Cons p ps)
  let ?l1 = "upd_player p (\<lambda>x. x\<lparr>is_ready := False\<rparr>) l"
  from Cons.prems have qp: "q \<noteq> p" and q: "q \<notin> set ps" by auto
  show ?case
  proof (cases "length (hand (heap ?l1 p)) \<noteq> HAND_SIZE")
    case False
    with Cons.IH[OF q] qp show ?thesis
      by (simp add: Let_def notify_frame heap_upd_player)
  next
    case True
    obtain r l2 where d: "draw_punchline ?l1 = (r, l2)" by (cases "draw_punchline ?l1")
    from draw_punchline_upd_player[OF d] have h: "heap l2 = heap ?l1" by simp
    show ?thesis
    proof (cases r)
      case (Inl e)
      with True d h qp show ?thesis by (simp add: Let_def heap_upd_player)
    next
      case (Inr c)
      with True d h qp Cons.IH[OF q] show ?thesis
        by (simp add: Let_def notify_frame heap_upd_player heap_add_punchline_card)
    qed
  qed
qed

lemma short_hands_cong:
  "(\<And>p. p \<in> set ps \<Longrightarrow> heap l' p = heap l p) \<Longrightarrow> short_hands l' ps = short_hands l ps"
  unfolding short_hands_def by (metis (mono_tags, lifting) filter_cong)

lemma dealt_cong:
  "heap l1 p = heap l p \<Longrightarrow> dealt l1 l' p = dealt l l' p"
  by (simp add: dealt_def)

lemma start_turn_deal_draws:
  "distinct ps \<Longrightarrow> start_turn_deal s ps l = (Inr (), l') \<Longrightarrow>
   run_deck (replicate (short_hands l ps) Draw) (punchlines l) (rng l) acc
     = (Inr (acc @ concat (map (dealt l l') ps)), punchlines l', rng l')
   \<and> (\<forall>p \<in> set ps.
         heap l' p = (heap l p)\<lparr>hand := hand (heap l p) @ dealt l l' p, is_ready := False\<rparr>
         \<and> length (dealt l l' p) = (if length (hand (heap l p)) = HAND_SIZE then 0 else 1))"
proof (induction ps arbitrary: l acc)
  case Nil
  then show ?case by (simp add: short_hands_def)
next
  case (Cons a ps)
  let ?l1 = "upd_player a (\<lambda>x. x\<lparr>is_ready := False\<rparr>) l"
  from Cons.prems have a: "a \<notin> set ps" and dis: "distinct ps" by auto
  show ?case
  proof (cases "length (hand (heap l a)) = HAND_SIZE")
    case True
    let ?l2 = "notify [a]
             (Turn_started s (turn_duration (settings ?l1)) (lead ?l1) (turn_count ?l1) None) ?l1"
    from True Cons.prems(2) have run: "start_turn_deal s ps ?l2 = (Inr (), l')"
      by (simp add: Let_def heap_upd_player)
    have same: "heap ?l2 q = heap l q" if "q \<in> set ps" for q
      using that a by (auto simp: notify_frame heap_upd_player)
    have sh: "short_hands ?l2 ps = short_hands l ps"
      by (rule short_hands_cong) (rule same)
    have sh': "short_hands l (a # ps) = short_hands l ps"
      using True by (simp add: short_hands_def)
    have dl: "map (dealt ?l2 l') ps = map (dealt l l') ps"
      by (rule map_cong[OF refl]) (rule dealt_cong, rule same)
    from start_turn_deal_other[OF a, of s ?l2] run
    have ha: "heap l' a = (heap l a)\<lparr>is_ready := False\<rparr>"
      by (simp add: notify_frame heap_upd_player)
    then have da: "dealt l l' a = []" by (simp add: dealt_def)
    note ih = Cons.IH[OF dis run, of acc]
    have 1: "run_deck (replicate (short_hands l (a # ps)) Draw) (punchlines l) (rng l) acc
          = (Inr (acc @ concat (map (dealt l l') (a # ps))), punchlines l', rng l')"
    proof -
      have "run_deck (replicate (short_hands l ps) Draw) (punchlines l) (rng l) acc
          = (Inr (acc @ concat (map (dealt l l') ps)), punchlines l', rng l')"
        using ih[THEN conjunct1] unfolding sh dl
        by (simp add: notify_frame upd_player_frame)
      then show ?thesis by (simp add: sh' da)
    qed
    have 2: "heap l' p = (heap l p)\<lparr>hand := hand (heap l p) @ dealt l l' p, is_ready := False\<rparr>
         \<and> length (dealt l l' p) = (if length (hand (heap l p)) = HAND_SIZE then 0 else 1)"
      if "p \<in> set (a # ps)" for p
    proof (cases "p = a")
      case True
      with ha da \<open>length (hand (heap l a)) = HAND_SIZE\<close> show ?thesis by simp
    next
      case False
      with that have p: "p \<in> set ps" by simp
      from ih[THEN conjunct2, rule_format, OF p] same[OF p] dealt_cong[OF same[OF p], of l']
      show ?thesis by simp
    qed
    from 1 2 show ?thesis by blast
  next
    case False
    then have ne: "length (hand (heap ?l1 a)) \<noteq> HAND_SIZE" by (simp add: heap_upd_player)
    obtain r l2 where d: "draw_punchline ?l1 = (r, l2)" by (cases "draw_punchline ?l1")
    from ne d Cons.prems(2) obtain c where r: "r = Inr c"
      by (cases r) (simp_all add: Let_def)
    from draw_punchline_get_card[OF d] r
    have g: "get_card (punchlines l) (rng l) = (Inr c, punchlines l2, rng l2)"
      and h: "heap l2 = heap ?l1"
      by (simp_all add: upd_player_frame)
    let ?l3 = "notify [a]
             (Turn_started s (turn_duration (settings l2)) (lead l2) (turn_count l2) (Some c))
             (add_punchline_card a c l2)"
    from ne d r Cons.prems(2) have run: "start_turn_deal s ps ?l3 = (Inr (), l')"
      by (simp add: Let_def)
    have same: "heap ?l3 q = heap l q" if "q \<in> set ps" for q
      using that a h by (auto simp: notify_frame heap_upd_player heap_add_punchline_card)
    have sh: "short_hands ?l3 ps = short_hands l ps"
      by (rule short_hands_cong) (rule same)
    have sh': "short_hands l (a # ps) = Suc (short_hands l ps)"
      using False by (simp add: short_hands_def)
    have dl: "map (dealt ?l3 l') ps = map (dealt l l') ps"
      by (rule map_cong[OF refl]) (rule dealt_cong, rule same)
    from start_turn_deal_other[OF a, of s ?l3] run h
    have ha: "heap l' a = (heap l a)\<lparr>hand := hand (heap l a) @ [c], is_ready := False\<rparr>"
      by (simp add: notify_frame heap_upd_player heap_add_punchline_card)
    then have da: "dealt l l' a = [c]" by (simp add: dealt_def)
    note ih = Cons.IH[OF dis run, of "acc @ [c]"]
    have 1: "run_deck (replicate (short_hands l (a # ps)) Draw) (punchlines l) (rng l) acc
          = (Inr (acc @ concat (map (dealt l l') (a # ps))), punchlines l', rng l')"
    proof -
      have "run_deck (replicate (short_hands l ps) Draw) (punchlines l2) (rng l2) (acc @ [c])
          = (Inr ((acc @ [c]) @ concat (map (dealt l l') ps)), punchlines l', rng l')"
        using ih[THEN conjunct1] unfolding sh dl
        by (simp add: notify_frame add_punchline_card_def upd_player_frame)
      then show ?thesis by (simp add: sh' da g)
    qed
    have 2: "heap l' p = (heap l p)\<lparr>hand := hand (heap l p) @ dealt l l' p, is_ready := False\<rparr>
         \<and> length (dealt l l' p) = (if length (hand (heap l p)) = HAND_SIZE then 0 else 1)"
      if "p \<in> set (a # ps)" for p
    proof (cases "p = a")
      case True
      with ha da False show ?thesis by simp
    next
      case pa: False
      with that have p: "p \<in> set ps" by simp
      from ih[THEN conjunct2, rule_format, OF p] same[OF p] dealt_cong[OF same[OF p], of l']
      show ?thesis by simp
    qed
    from 1 2 show ?thesis by blast
  qed
qed

lemma start_turn_deal_ok:
  "distinct ps \<Longrightarrow> short_hands l ps \<le> deck_size (punchlines l) \<Longrightarrow>
   fst (start_turn_deal s ps l) = Inr ()"
proof (induction ps arbitrary: l)
  case Nil
  then show ?case by simp
next
  case (Cons a ps)
  let ?l1 = "upd_player a (\<lambda>x. x\<lparr>is_ready := False\<rparr>) l"
  from Cons.prems have a: "a \<notin> set ps" and dis: "distinct ps" by auto
  show ?case
  proof (cases "length (hand (heap ?l1 a)) \<noteq> HAND_SIZE")
    case False
    let ?l2 = "notify [a]
             (Turn_started s (turn_duration (settings ?l1)) (lead ?l1) (turn_count ?l1) None) ?l1"
    have "short_hands ?l2 ps = short_hands l ps"
      using a by (intro short_hands_cong) (auto simp: notify_frame heap_upd_player)
    moreover have "short_hands l ps \<le> short_hands l (a # ps)"
      by (simp add: short_hands_def)
    ultimately have "short_hands ?l2 ps \<le> deck_size (punchlines ?l2)"
      using Cons.prems(2) by (simp add: notify_frame upd_player_frame)
    from Cons.IH[OF dis this] False show ?thesis by (simp add: Let_def)
  next
    case True
    then have s: "short_hands l (a # ps) = Suc (short_hands l ps)"
      by (simp add: short_hands_def heap_upd_player)
    with Cons.prems(2) have "0 < deck_size (punchlines ?l1)"
      by (simp add: upd_player_frame)
    from draw_punchline_pos[OF this] obtain c l2 where d: "draw_punchline ?l1 = (Inr c, l2)"
      by blast
    from draw_punchline_upd_player[OF d]
    have h: "heap l2 = heap ?l1" "Suc (deck_size (punchlines l2)) = deck_size (punchlines l)"
      by simp_all
    let ?l3 = "notify [a]
             (Turn_started s (turn_duration (settings l2)) (lead l2) (turn_count l2) (Some c))
             (add_punchline_card a c l2)"
    have "short_hands ?l3 ps = short_hands l ps"
      using a h by (intro short_hands_cong)
        (auto simp: notify_frame heap_upd_player heap_add_punchline_card)
    with s h Cons.prems(2) have "short_hands ?l3 ps \<le> deck_size (punchlines ?l3)"
      by (simp add: notify_frame add_punchline_card_frame)
    from Cons.IH[OF dis this] True d show ?thesis by (simp add: Let_def)
  qed
qed

lemma all_players_eqI:
  "players l' = players l \<Longrightarrow> lead l' = lead l \<Longrightarrow> all_players l' = all_players l"
  by (simp add: all_players_def split: option.splits)

lemma all_players_update:
  "all_players (l\<lparr>owner := a1\<rparr>) = all_players l"
  "all_players (l\<lparr>table := a2\<rparr>) = all_players l"
  "all_players (l\<lparr>grave := a3\<rparr>) = all_players l"
  "all_players (l\<lparr>punchlines := a4\<rparr>) = all_players l"
  "all_players (l\<lparr>setups := a5\<rparr>) = all_players l"
  "all_players (l\<lparr>settings := a6\<rparr>) = all_players l"
  "all_players (l\<lparr>state := a7\<rparr>) = all_players l"
  "all_players (l\<lparr>turn_count := a8\<rparr>) = all_players l"
  "all_players (l\<lparr>is_game_endless := a9\<rparr>) = all_players l"
  "all_players (l\<lparr>heap := a10\<rparr>) = all_players l"
  "all_players (l\<lparr>events := a11\<rparr>) = all_players l"
  "all_players (l\<lparr>tasks := a12\<rparr>) = all_players l"
  "all_players (l\<lparr>cancelled := a13\<rparr>) = all_players l"
  "all_players (l\<lparr>rng := a14\<rparr>) = all_players l"
  by (simp_all add: all_players_def split: option.splits)

lemma change_lead_cases:
  "all_players l = [] \<Longrightarrow> change_lead l = (Inl IndexError, l)"
  "all_players l \<noteq> [] \<Longrightarrow> \<exists>l1. change_lead l = (Inr (), l1)"
  by (auto simp: change_lead_def all_players_def Let_def split: option.splits list.splits)

lemma change_lead_Inr:
  assumes "change_lead l = (Inr (), l1)"
  shows "all_players l1 = (case lead l of None \<Rightarrow> players l | Some ld \<Rightarrow> players l @ [ld])"
    and "heap l1 = heap l" and "punchlines l1 = punchlines l" and "setups l1 = setups l"
    and "set (all_players l1) = set (all_players l)"
    and "distinct (all_players l1) = distinct (all_players l)"
    and "lead l1 \<noteq> None"
proof -
  show a: "all_players l1 = (case lead l of None \<Rightarrow> players l | Some ld \<Rightarrow> players l @ [ld])"
    using assms
    by (auto simp: change_lead_def all_players_def Let_def split: option.splits list.splits)
  show "set (all_players l1) = set (all_players l)"
    unfolding a by (auto simp: all_players_def split: option.splits)
  show "distinct (all_players l1) = distinct (all_players l)"
    unfolding a by (auto simp: all_players_def split: option.splits)
  show "heap l1 = heap l" "punchlines l1 = punchlines l" "setups l1 = setups l"
    "lead l1 \<noteq> None"
    using assms
    by (auto simp: change_lead_def Let_def split: option.splits list.splits)
qed

lemma draw_setup_cases:
  "draw_setup l = (r, l2) \<Longrightarrow>
     heap l2 = heap l \<and> punchlines l2 = punchlines l \<and> all_players l2 = all_players l
     \<and> lead l2 = lead l
     \<and> (0 < deck_size (setups l) \<longrightarrow> (\<exists>c. r = Inr c))"
  using get_card_size_pos[of "setups l" "rng l"]
  by (auto simp: draw_setup_def all_players_update split: prod.splits)

lemma change_lead_rng: "change_lead l = (r, l1) \<Longrightarrow> rng l1 = rng l \<and> setups l1 = setups l"
  by (auto simp: change_lead_def Let_def split: option.splits list.splits)

lemma draw_setup_rng:
  "draw_setup l = (r, l2) \<Longrightarrow> rng l2 = snd (snd (get_card (setups l) (rng l)))"
  by (auto simp: draw_setup_def split: prod.splits)

lemma start_turn_unfold:
  assumes "change_lead l = (Inr (), l1)" "draw_setup l1 = (Inr new_setup, l2)"
  defines "l4 \<equiv> transit_to (Turns new_setup (length (tasks l2)))
                   (create_task Turn_timer (l2\<lparr>turn_count := turn_count l2 + 1\<rparr>))"
  shows "start_turn l = start_turn_deal new_setup (all_players l1) l4"
    and "heap l4 = heap l" and "punchlines l4 = punchlines l"
  using assms draw_setup_cases[of l1 "Inr new_setup" l2] change_lead_Inr(2,3)[of l l1]
  by (simp_all add: start_turn_def Let_def transit_to_def create_task_def all_players_update)

lemma short_hands_perm: "mset ps = mset qs \<Longrightarrow> short_hands l ps = short_hands l qs"
  unfolding short_hands_def by (metis mset_filter size_mset)

text \<open>
  C4, as the code has it. \<^verbatim>\<open>Lobby.start_turn\<close> draws one card, and only one, from the
  punchline deck for every participant, connected or not, whose hand does not hold
  exactly \<open>HAND_SIZE\<close> cards, and none for the others. When lead and roster are distinct
  players and the call returns: the participants are the same players as before; each is
  not ready and holds the hand it had with the cards dealt to it appended, one card if
  the hand did not have \<open>HAND_SIZE\<close> cards and none if it had, so that a hand is full after
  the call exactly when it was full or one card short before; the other player objects
  are as they were; and the cards dealt, in the order of the new lead and roster, are the
  cards that one \<^verbatim>\<open>get_card\<close> call for every hand that was not full draws from the
  punchline deck, once the draw of the setup card has used the random source, and deck
  and random source are as these draws leave them. The call returns whenever there is a
  participant, the setup deck is not exhausted and the punchline deck holds a card for
  every hand that is not full.
\<close>

theorem start_turn_deals_one_card:
  assumes "distinct (all_players l)"
  shows "(all_players l \<noteq> [] \<and> 0 < deck_size (setups l)
          \<and> short_hands l (all_players l) \<le> deck_size (punchlines l)
          \<longrightarrow> fst (start_turn l) = Inr ())
       \<and> (\<forall>l'. start_turn l = (Inr (), l') \<longrightarrow>
            set (all_players l') = set (all_players l)
            \<and> (\<forall>p \<in> set (all_players l').
                  heap l' p = (heap l p)\<lparr>hand := hand (heap l p) @ dealt l l' p, is_ready := False\<rparr>
                  \<and> length (dealt l l' p) = (if length (hand (heap l p)) = HAND_SIZE then 0 else 1)
                  \<and> length (hand (heap l' p)) =
                      (if length (hand (heap l p)) = HAND_SIZE then HAND_SIZE
                       else Suc (length (hand (heap l p)))))
            \<and> (\<forall>p. p \<notin> set (all_players l) \<longrightarrow> heap l' p = heap l p)
            \<and> run_deck (replicate (short_hands l (all_players l)) Draw) (punchlines l)
                 (snd (snd (get_card (setups l) (rng l)))) []
               = (Inr (concat (map (dealt l l') (all_players l'))), punchlines l', rng l'))"
proof (cases "all_players l = []")
  case True
  then show ?thesis by (simp add: start_turn_def change_lead_cases(1))
next
  case False
  from change_lead_cases(2)[OF False] obtain l1 where cl: "change_lead l = (Inr (), l1)"
    by blast
  note c = change_lead_Inr[OF cl]
  have d1: "distinct (all_players l1)" using c(6) assms by simp
  have perm: "mset (all_players l1) = mset (all_players l)"
    using c(1) by (simp add: all_players_def split: option.splits)
  obtain r l2 where ds: "draw_setup l1 = (r, l2)" by (cases "draw_setup l1")
  note s = draw_setup_cases[OF ds]
  show ?thesis
  proof (cases r)
    case (Inl e)
    with cl ds s c(4) show ?thesis by (auto simp: start_turn_def)
  next
    case (Inr new_setup)
    define l4 where "l4 = transit_to (Turns new_setup (length (tasks l2)))
                   (create_task Turn_timer (l2\<lparr>turn_count := turn_count l2 + 1\<rparr>))"
    note u = start_turn_unfold[OF cl ds[unfolded Inr], folded l4_def]
    have g4: "rng l4 = snd (snd (get_card (setups l) (rng l)))"
      using draw_setup_rng[OF ds] change_lead_rng[OF cl]
      by (simp add: l4_def transit_to_def create_task_def)
    have sh4: "short_hands l4 (all_players l1) = short_hands l (all_players l)"
    proof -
      have "short_hands l4 (all_players l1) = short_hands l (all_players l1)"
        by (rule short_hands_cong) (simp add: u(2))
      also have "\<dots> = short_hands l (all_players l)"
        using perm by (rule short_hands_perm)
      finally show ?thesis .
    qed
    have ok: "short_hands l (all_players l) \<le> deck_size (punchlines l)
              \<Longrightarrow> fst (start_turn l) = Inr ()"
    proof -
      assume a: "short_hands l (all_players l) \<le> deck_size (punchlines l)"
      then have "short_hands l4 (all_players l1) \<le> deck_size (punchlines l4)"
        using sh4 u(3) by simp
      from start_turn_deal_ok[OF d1 this] u(1) show ?thesis by simp
    qed
    have post: "set (all_players l') = set (all_players l)
            \<and> (\<forall>p \<in> set (all_players l').
                  heap l' p = (heap l p)\<lparr>hand := hand (heap l p) @ dealt l l' p, is_ready := False\<rparr>
                  \<and> length (dealt l l' p) = (if length (hand (heap l p)) = HAND_SIZE then 0 else 1)
                  \<and> length (hand (heap l' p)) =
                      (if length (hand (heap l p)) = HAND_SIZE then HAND_SIZE
                       else Suc (length (hand (heap l p)))))
            \<and> (\<forall>p. p \<notin> set (all_players l) \<longrightarrow> heap l' p = heap l p)
            \<and> run_deck (replicate (short_hands l (all_players l)) Draw) (punchlines l)
                 (snd (snd (get_card (setups l) (rng l)))) []
               = (Inr (concat (map (dealt l l') (all_players l'))), punchlines l', rng l')"
      if run: "start_turn l = (Inr (), l')" for l'
    proof -
      from run u(1) have deal: "start_turn_deal new_setup (all_players l1) l4 = (Inr (), l')"
        by simp
      have "deals_only l4 l'"
        using deals_only_start_turn_deal[OF deals_only_refl, of l4 new_setup "all_players l1"] deal
        by simp
      then have "all_players l' = all_players l4" by (rule deals_only_all_players)
      also have "all_players l4 = all_players l1"
        using s by (simp add: l4_def transit_to_def create_task_def all_players_update)
      finally have ap: "all_players l' = all_players l1" .
      note dr = start_turn_deal_draws[OF d1 deal, of "[]"]
      have dl: "map (dealt l4 l') (all_players l1) = map (dealt l l') (all_players l1)"
        by (rule map_cong[OF refl]) (rule dealt_cong, simp add: u(2))
      have deck: "run_deck (replicate (short_hands l (all_players l)) Draw) (punchlines l)
                 (snd (snd (get_card (setups l) (rng l)))) []
               = (Inr (concat (map (dealt l l') (all_players l'))), punchlines l', rng l')"
        using dr[THEN conjunct1] unfolding sh4 dl g4 u(3) ap by simp
      have hands: "heap l' p = (heap l p)\<lparr>hand := hand (heap l p) @ dealt l l' p, is_ready := False\<rparr>
                  \<and> length (dealt l l' p) = (if length (hand (heap l p)) = HAND_SIZE then 0 else 1)"
        if "p \<in> set (all_players l1)" for p
        using dr[THEN conjunct2, rule_format, OF that] dealt_cong[of l4 p l l'] u(2) by simp
      have lens: "length (hand (heap l' p)) =
                      (if length (hand (heap l p)) = HAND_SIZE then HAND_SIZE
                       else Suc (length (hand (heap l p))))"
        if "p \<in> set (all_players l1)" for p
      proof -
        have "length (hand (heap l' p)) = length (hand (heap l p)) + length (dealt l l' p)"
          using arg_cong[OF hands[OF that, THEN conjunct1], of hand] by simp
        with hands[OF that, THEN conjunct2] show ?thesis by simp
      qed
      have others: "heap l' p = heap l p" if "p \<notin> set (all_players l)" for p
        using start_turn_deal_other[of p "all_players l1" new_setup l4] that c(5) deal u(2)
        by simp
      show ?thesis using ap c(5) hands lens others deck by simp
    qed
    show ?thesis using ok post by blast
  qed
qed

lemmas start_turn_eval =
  rejoined_def dealt_twice_def gathered_dealt_def gathered_def long_settings_def
  late_joiner_def judgement1_def round1_def Player_def example_settings_def example_setups_def
  start_turn_def change_lead_def draw_setup_def draw_punchline_def get_card_def
  add_punchline_card_def HAND_SIZE_def create_task_def transit_to_def notify_def
  upd_player_def all_players_def Let_def

theorem start_turn_deals_one_card_witness:
  "distinct (all_players late_joiner)
   \<and> all_players late_joiner = [1, 2, 3, 4]
   \<and> 0 < deck_size (setups late_joiner)
   \<and> short_hands late_joiner (all_players late_joiner) = 3
   \<and> punchlines late_joiner
       = \<lparr>cards = map pc [1, 2, 3, 4, 5, 6, 7, 8, 9, 10], dump_pile = [pc 13, pc 21]\<rparr>
   \<and> fst (start_turn late_joiner) = Inr ()
   \<and> all_players (snd (start_turn late_joiner)) = [2, 3, 4, 1]
   \<and> length (hand (heap (snd (start_turn late_joiner)) 1)) = 10
   \<and> length (hand (heap (snd (start_turn late_joiner)) 2)) = 10
   \<and> length (hand (heap (snd (start_turn late_joiner)) 3)) = 10
   \<and> length (hand (heap (snd (start_turn late_joiner)) 4)) = 1
   \<and> \<not> is_ready (heap (snd (start_turn late_joiner)) 2)
   \<and> concat (map (dealt late_joiner (snd (start_turn late_joiner))) [2, 3, 4, 1])
       = [pc 10, pc 9, pc 8]
   \<and> punchlines (snd (start_turn late_joiner))
       = \<lparr>cards = map pc [1, 2, 3, 4, 5, 6, 7], dump_pile = [pc 13, pc 21]\<rparr>"
proof -
  have ap: "all_players late_joiner = [1, 2, 3, 4]"
    by (simp add: late_joiner_def judgement1_def round1_def all_players_def)
  have pre: "distinct (all_players late_joiner)" "all_players late_joiner \<noteq> []"
    "0 < deck_size (setups late_joiner)"
    "short_hands late_joiner (all_players late_joiner) = 3"
    "deck_size (punchlines late_joiner) = 12"
    unfolding ap
    by (simp_all add: late_joiner_def judgement1_def round1_def Player_def deck_size_def
          short_hands_def HAND_SIZE_def)
  have pu: "punchlines late_joiner
       = \<lparr>cards = map pc [1, 2, 3, 4, 5, 6, 7, 8, 9, 10], dump_pile = [pc 13, pc 21]\<rparr>"
    and g: "snd (snd (get_card (setups late_joiner) (rng late_joiner))) = []"
    by (simp_all add: late_joiner_def judgement1_def round1_def get_card_def)
  have hands: "length (hand (heap late_joiner 1)) = 10" "length (hand (heap late_joiner 2)) = 9"
    "length (hand (heap late_joiner 3)) = 9" "length (hand (heap late_joiner 4)) = 0"
    by (simp_all add: late_joiner_def judgement1_def round1_def Player_def)
  have ap': "all_players (snd (start_turn late_joiner)) = [2, 3, 4, 1]"
    by (simp add: start_turn_eval)
  obtain r l' where e: "start_turn late_joiner = (r, l')" by (cases "start_turn late_joiner")
  from ap' e have ap'': "all_players l' = [2, 3, 4, 1]" by simp
  note t = start_turn_deals_one_card[OF pre(1)]
  from t pre e have r: "r = Inr ()" by simp
  from t e r have post:
    "\<forall>p \<in> set (all_players l').
        length (hand (heap l' p)) =
          (if length (hand (heap late_joiner p)) = HAND_SIZE then HAND_SIZE
           else Suc (length (hand (heap late_joiner p))))
        \<and> \<not> is_ready (heap l' p)"
    "run_deck (replicate (short_hands late_joiner (all_players late_joiner)) Draw)
        (punchlines late_joiner)
        (snd (snd (get_card (setups late_joiner) (rng late_joiner)))) []
      = (Inr (concat (map (dealt late_joiner l') (all_players l'))), punchlines l', rng l')"
    by simp_all
  from post(1) have len: "length (hand (heap l' 1)) = 10" "length (hand (heap l' 2)) = 10"
    "length (hand (heap l' 3)) = 10" "length (hand (heap l' 4)) = 1" "\<not> is_ready (heap l' 2)"
    unfolding ap'' using hands by (simp_all add: HAND_SIZE_def)
  have "run_deck (replicate (short_hands late_joiner (all_players late_joiner)) Draw)
        (punchlines late_joiner)
        (snd (snd (get_card (setups late_joiner) (rng late_joiner)))) []
      = (Inr [pc 10, pc 9, pc 8],
         \<lparr>cards = map pc [1, 2, 3, 4, 5, 6, 7], dump_pile = [pc 13, pc 21]\<rparr>, [])"
    unfolding pre(4) pu g by (simp add: numeral_3_eq_3 get_card_def)
  with post(2) have deck: "concat (map (dealt late_joiner l') [2, 3, 4, 1]) = [pc 10, pc 9, pc 8]"
    "punchlines l' = \<lparr>cards = map pc [1, 2, 3, 4, 5, 6, 7], dump_pile = [pc 13, pc 21]\<rparr>"
    unfolding ap'' by simp_all
  from pre ap pu r ap'' len deck show ?thesis unfolding e by simp
qed

theorem start_turn_hand_size_counterexample:
  "is_connected (heap rejoined 3)
   \<and> 3 \<in> set (all_players rejoined)
   \<and> hand (heap rejoined 3) = map pc [20, 19, 18, 17, 16, 15, 14, 11]
   \<and> fst (start_turn rejoined) = Inr ()
   \<and> state (snd (start_turn rejoined)) = Turns (sc 2) 2
   \<and> all_players (snd (start_turn rejoined)) = [2, 3, 1]
   \<and> is_connected (heap (snd (start_turn rejoined)) 3)
   \<and> hand (heap (snd (start_turn rejoined)) 3) = map pc [20, 19, 18, 17, 16, 15, 14, 11, 9]
   \<and> length (hand (heap (snd (start_turn rejoined)) 3)) \<noteq> HAND_SIZE
   \<and> is_connected (heap dealt_twice 2)
   \<and> 2 \<in> set (all_players dealt_twice)
   \<and> length (hand (heap dealt_twice 2)) = 20
   \<and> fst (start_turn dealt_twice) = Inr ()
   \<and> state (snd (start_turn dealt_twice)) = Turns (sc 3) 0
   \<and> all_players (snd (start_turn dealt_twice)) = [2, 3, 1]
   \<and> is_connected (heap (snd (start_turn dealt_twice)) 2)
   \<and> length (hand (heap (snd (start_turn dealt_twice)) 2)) = 21
   \<and> length (hand (heap (snd (start_turn dealt_twice)) 2)) \<noteq> HAND_SIZE"
  by (intro conjI) (simp_all add: start_turn_eval)

section \<open>Submitting cards and resolving the round\<close>

lemma find_player_Some:
  "find (\<lambda>e. player e = p) xs = Some prev \<Longrightarrow> player prev = p \<and> prev \<in> set xs"
  by (induction xs) (auto split: if_splits)

lemma filter_remove1_other: "\<not> P x \<Longrightarrow> filter P (remove1 x xs) = filter P xs"
  by (induction xs) auto

lemma put_card_on_table_fail:
  "c \<notin> set (hand (heap l p)) \<Longrightarrow> put_card_on_table p c l = (Inl CardNotInPlayerHandError, l)"
  by (simp add: put_card_on_table_def)

lemma put_card_on_table_ok:
  assumes "c \<in> set (hand (heap l p))"
  shows "fst (put_card_on_table p c l) = Inr ()"
    and "table (snd (put_card_on_table p c l)) =
           (case card_on_table_of l p of
              Some prev \<Rightarrow> remove1 prev (table l)
            | None \<Rightarrow> table l) @ [\<lparr>card = c, player = p, is_open = False\<rparr>]"
    and "heap (snd (put_card_on_table p c l)) =
           (heap l)(p := (heap l p)
              \<lparr>hand := remove1 c (case card_on_table_of l p of
                                     Some prev \<Rightarrow> hand (heap l p) @ [card prev]
                                   | None \<Rightarrow> hand (heap l p)),
                is_ready := True\<rparr>)"
    and "rng (snd (put_card_on_table p c l)) = rng l"
    and "players (snd (put_card_on_table p c l)) = players l"
    and "lead (snd (put_card_on_table p c l)) = lead l"
    and "state (snd (put_card_on_table p c l)) = state l"
  using assms
  by (auto simp: put_card_on_table_def Let_def notify_def upd_player_def split: option.splits)

lemma put_card_on_table_other:
  assumes "q \<noteq> p"
  shows "heap (snd (put_card_on_table p c l)) q = heap l q"
    and "filter (\<lambda>e. player e = q) (table (snd (put_card_on_table p c l)))
         = filter (\<lambda>e. player e = q) (table l)"
proof -
  show "heap (snd (put_card_on_table p c l)) q = heap l q"
    using assms put_card_on_table_ok(3)[of c l p] put_card_on_table_fail[of c l p]
    by (cases "c \<in> set (hand (heap l p))") simp_all
  show "filter (\<lambda>e. player e = q) (table (snd (put_card_on_table p c l)))
         = filter (\<lambda>e. player e = q) (table l)"
  proof (cases "c \<in> set (hand (heap l p))")
    case False
    then show ?thesis by (simp add: put_card_on_table_fail)
  next
    case True
    show ?thesis
    proof (cases "card_on_table_of l p")
      case None
      with True assms show ?thesis by (simp add: put_card_on_table_ok(2))
    next
      case (Some prev)
      then have "player prev = p"
        using find_player_Some[of p "table l" prev] by (simp add: card_on_table_of_def)
      with assms have "\<not> player prev = q" by simp
      then have "filter (\<lambda>e. player e = q) (remove1 prev (table l))
                 = filter (\<lambda>e. player e = q) (table l)"
        by (rule filter_remove1_other)
      with True Some assms show ?thesis by (simp add: put_card_on_table_ok(2))
    qed
  qed
qed

lemma choice_cases:
  "xs = [] \<Longrightarrow> choice xs g = (Inl IndexError, g)"
  "xs \<noteq> [] \<Longrightarrow> \<exists>c g'. choice xs g = (Inr c, g') \<and> c \<in> set xs"
proof -
  show "xs = [] \<Longrightarrow> choice xs g = (Inl IndexError, g)" by (simp add: choice_def)
  assume ne: "xs \<noteq> []"
  then obtain n where n: "length xs = Suc n" by (cases xs) auto
  obtain j g' where r: "randbelow (length xs) g = (j, g')" by (cases "randbelow (length xs) g")
  have "j < length xs" using randbelow_le[of n g] r n by simp
  then have "xs ! j \<in> set xs" by simp
  with ne r show "\<exists>c g'. choice xs g = (Inr c, g') \<and> c \<in> set xs"
    by (simp add: choice_def)
qed

lemma choice_Inr: "choice xs g = (Inr c, g') \<Longrightarrow> c \<in> set xs"
  using choice_cases[of xs g] by (cases "xs = []") auto

lemma auto_submit_Cons_skip:
  "\<not> (is_connected (heap l p) \<and> \<not> is_ready (heap l p)) \<Longrightarrow>
   auto_submit (p # ps) l = auto_submit ps l"
  by auto

lemma auto_submit_skips:
  "\<not> is_connected (heap l q) \<or> is_ready (heap l q) \<Longrightarrow>
   heap (snd (auto_submit ps l)) q = heap l q
   \<and> filter (\<lambda>e. player e = q) (table (snd (auto_submit ps l)))
       = filter (\<lambda>e. player e = q) (table l)"
proof (induction ps arbitrary: l)
  case Nil
  then show ?case by simp
next
  case (Cons p ps)
  show ?case
  proof (cases "is_connected (heap l p) \<and> \<not> is_ready (heap l p)")
    case False
    from Cons.IH[OF Cons.prems] show ?thesis
      by (simp only: auto_submit_Cons_skip[OF False])
  next
    case True
    with Cons.prems have qp: "q \<noteq> p" by auto
    obtain r g where ch: "choice (hand (heap l p)) (rng l) = (r, g)"
      by (cases "choice (hand (heap l p)) (rng l)")
    show ?thesis
    proof (cases r)
      case (Inl e)
      with True ch show ?thesis by simp
    next
      case (Inr c)
      let ?l0 = "l\<lparr>rng := g\<rparr>"
      obtain r1 l1 where put: "put_card_on_table p c ?l0 = (r1, l1)"
        by (cases "put_card_on_table p c ?l0")
      from put_card_on_table_other[OF qp, of c ?l0] put
      have o: "heap l1 q = heap l q"
        "filter (\<lambda>e. player e = q) (table l1) = filter (\<lambda>e. player e = q) (table l)"
        by simp_all
      show ?thesis
      proof (cases r1)
        case (Inl e)
        with True ch Inr put o show ?thesis by simp
      next
        case r1: (Inr u)
        from Cons.prems o have "\<not> is_connected (heap l1 q) \<or> is_ready (heap l1 q)" by simp
        from Cons.IH[OF this] True ch Inr put r1 o show ?thesis by simp
      qed
    qed
  qed
qed

lemma auto_submit_submits:
  "auto_submit ps l = (Inr (), l') \<Longrightarrow> p \<in> set ps \<Longrightarrow>
   is_connected (heap l p) \<Longrightarrow> \<not> is_ready (heap l p) \<Longrightarrow>
   is_ready (heap l' p)
   \<and> (\<exists>c \<in> set (hand (heap l p)). \<lparr>card = c, player = p, is_open = False\<rparr> \<in> set (table l'))"
proof (induction ps arbitrary: l)
  case Nil
  then show ?case by simp
next
  case (Cons a ps)
  show ?case
  proof (cases "is_connected (heap l a) \<and> \<not> is_ready (heap l a)")
    case False
    with Cons.prems have "p \<noteq> a" by auto
    with Cons.prems(2) have "p \<in> set ps" by simp
    from Cons.prems(1) have "auto_submit ps l = (Inr (), l')"
      by (simp only: auto_submit_Cons_skip[OF False])
    from Cons.IH[OF this \<open>p \<in> set ps\<close> Cons.prems(3,4)] show ?thesis .
  next
    case True
    obtain r g where ch: "choice (hand (heap l a)) (rng l) = (r, g)"
      by (cases "choice (hand (heap l a)) (rng l)")
    with True Cons.prems(1) obtain c where r: "r = Inr c" by (cases r) auto
    from choice_Inr[OF ch[unfolded r]] have cin: "c \<in> set (hand (heap l a))" .
    let ?l0 = "l\<lparr>rng := g\<rparr>"
    obtain r1 l1 where put: "put_card_on_table a c ?l0 = (r1, l1)"
      by (cases "put_card_on_table a c ?l0")
    with True ch r Cons.prems(1) have r1: "r1 = Inr ()" and rest: "auto_submit ps l1 = (Inr (), l')"
      by (cases r1; simp)+
    show ?thesis
    proof (cases "p = a")
      case False
      with Cons.prems(2) have "p \<in> set ps" by simp
      from put_card_on_table_other(1)[OF False, of c ?l0] put
      have "heap l1 p = heap l p" by simp
      with Cons.IH[OF rest \<open>p \<in> set ps\<close>] Cons.prems(3,4) show ?thesis by simp
    next
      case pa: True
      from cin have cin0: "c \<in> set (hand (heap ?l0 a))" by simp
      from put_card_on_table_ok(2,3)[OF cin0] put
      have e: "\<lparr>card = c, player = a, is_open = False\<rparr> \<in> set (table l1)"
        and rd: "is_ready (heap l1 a)"
        by simp_all
      from auto_submit_skips[of l1 a ps] rd rest
      have k: "heap l' a = heap l1 a"
        "filter (\<lambda>e. player e = a) (table l') = filter (\<lambda>e. player e = a) (table l1)"
        by simp_all
      from e have "\<lparr>card = c, player = a, is_open = False\<rparr>
                   \<in> set (filter (\<lambda>e. player e = a) (table l1))" by simp
      with k(2) have "\<lparr>card = c, player = a, is_open = False\<rparr>
                   \<in> set (filter (\<lambda>e. player e = a) (table l'))" by simp
      then have "\<lparr>card = c, player = a, is_open = False\<rparr> \<in> set (table l')" by simp
      with pa cin rd k(1) show ?thesis by auto
    qed
  qed
qed

lemma auto_submit_all_ready:
  "\<not> list_ex (\<lambda>pl. is_connected (heap l pl) \<and> \<not> is_ready (heap l pl)) ps \<Longrightarrow>
   auto_submit ps l = (Inr (), l)"
  by (induction ps) auto

lemma shuffle_filter_mset: "mset (filter P (fst (shuffle xs g))) = mset (filter P xs)"
  by (simp add: shuffle_mset)

lemma end_turn_after_auto_submit:
  assumes "auto_submit (players l) l = (r, l1)"
  shows "heap (snd (end_turn s l)) = heap l1"
    and "mset (table (snd (end_turn s l))) = mset (table l1)"
    and "r = Inr () \<Longrightarrow> lead l1 \<noteq> None \<Longrightarrow>
         fst (end_turn s l) = Inr () \<and> state (snd (end_turn s l)) = Judgement s None"
    and "r = Inr () \<Longrightarrow> lead l1 = None \<Longrightarrow> fst (end_turn s l) = Inl NotImplementedError"
    and "r = Inl e \<Longrightarrow> end_turn s l = (Inl e, l1)"
  using assms shuffle_mset[of "table l1" "rng l1"]
  by (cases r; auto simp: end_turn_def Let_def notify_def transit_to_def
        split: prod.splits option.splits)+

lemma find_None_filter: "find P xs = None \<longleftrightarrow> filter P xs = []"
  by (induction xs) auto

lemma card_on_table_of_None_mset:
  "mset (filter (\<lambda>e. player e = q) (table l')) = mset (filter (\<lambda>e. player e = q) (table l))
   \<Longrightarrow> card_on_table_of l q = None \<Longrightarrow> card_on_table_of l' q = None"
proof -
  assume m: "mset (filter (\<lambda>e. player e = q) (table l'))
             = mset (filter (\<lambda>e. player e = q) (table l))"
    and n: "card_on_table_of l q = None"
  from n have "filter (\<lambda>e. player e = q) (table l) = []"
    by (simp add: card_on_table_of_def find_None_filter)
  with m have "mset (filter (\<lambda>e. player e = q) (table l')) = {#}" by simp
  then have "filter (\<lambda>e. player e = q) (table l') = []" by (simp only: mset_zero_iff)
  then show ?thesis by (simp add: card_on_table_of_def find_None_filter)
qed

lemma end_turn_skips:
  assumes "\<not> is_connected (heap l q)"
  shows "heap (snd (end_turn s l)) q = heap l q"
    and "mset (filter (\<lambda>e. player e = q) (table (snd (end_turn s l))))
         = mset (filter (\<lambda>e. player e = q) (table l))"
proof -
  obtain r l1 where a: "auto_submit (players l) l = (r, l1)"
    by (cases "auto_submit (players l) l")
  from auto_submit_skips[of l q "players l"] assms a
  have k: "heap l1 q = heap l q"
    "filter (\<lambda>e. player e = q) (table l1) = filter (\<lambda>e. player e = q) (table l)"
    by simp_all
  note e = end_turn_after_auto_submit[OF a, where s = s]
  show "heap (snd (end_turn s l)) q = heap l q" using e(1) k(1) by simp
  have "mset (filter (\<lambda>e. player e = q) (table (snd (end_turn s l))))
        = filter_mset (\<lambda>e. player e = q) (mset (table (snd (end_turn s l))))" by simp
  also have "\<dots> = filter_mset (\<lambda>e. player e = q) (mset (table l1))" using e(2) by simp
  also have "\<dots> = mset (filter (\<lambda>e. player e = q) (table l))" using k(2) by (metis mset_filter)
  finally show "mset (filter (\<lambda>e. player e = q) (table (snd (end_turn s l))))
         = mset (filter (\<lambda>e. player e = q) (table l))" .
qed

lemma end_turn_submits:
  assumes "end_turn s l = (Inr (), l')" "p \<in> set (players l)"
    "is_connected (heap l p)" "\<not> is_ready (heap l p)"
  shows "state l' = Judgement s None \<and> is_ready (heap l' p)
         \<and> (\<exists>c \<in> set (hand (heap l p)). \<lparr>card = c, player = p, is_open = False\<rparr> \<in> set (table l'))"
proof -
  obtain r l1 where a: "auto_submit (players l) l = (r, l1)"
    by (cases "auto_submit (players l) l")
  note e = end_turn_after_auto_submit[OF a, where s = s]
  from assms(1) e(5) have r: "r = Inr ()" by (cases r) auto
  from assms(1) e(4)[OF r] have ld: "lead l1 \<noteq> None" by auto
  from auto_submit_submits[OF a[unfolded r] assms(2-4)] obtain c where
    c: "is_ready (heap l1 p)" "c \<in> set (hand (heap l p))"
       "\<lparr>card = c, player = p, is_open = False\<rparr> \<in> set (table l1)" by blast
  from e(2) assms(1) have "set (table l') = set (table l1)" by (metis mset_eq_setD snd_conv)
  with c e(1) e(3)[OF r ld] assms(1) show ?thesis by auto
qed

lemma try_end_turn_cases:
  "list_ex (\<lambda>pl. is_connected (heap l pl) \<and> \<not> is_ready (heap l pl)) (players l) \<Longrightarrow>
     try_end_turn s t l = (Inr (), l)"
  "\<not> list_ex (\<lambda>pl. is_connected (heap l pl) \<and> \<not> is_ready (heap l pl)) (players l) \<Longrightarrow>
     try_end_turn s t l = end_turn s (cancel t l)"
  by (simp_all add: try_end_turn_def)

lemma cancel_frame:
  "heap (cancel t l) = heap l" "table (cancel t l) = table l" "players (cancel t l) = players l"
  "lead (cancel t l) = lead l" "rng (cancel t l) = rng l" "state (cancel t l) = state l"
  by (simp_all add: cancel_def)

text \<open>
  C3, as the code has it. Round resolution submits a card only for the players of the
  roster who are connected and not ready. A disconnected player is skipped: the hand and
  the flags are untouched, and a player without a table entry has none after
  \<^verbatim>\<open>end_turn\<close> or \<^verbatim>\<open>try_end_turn\<close>, also when the lobby has moved to \<^verbatim>\<open>Judgement\<close>.
  When every connected player of the roster is ready and there is a lead,
  \<^verbatim>\<open>try_end_turn\<close> resolves the round and the state is \<^verbatim>\<open>Judgement\<close>. Every connected
  player who was not ready has, after a successful \<^verbatim>\<open>end_turn\<close>, an entry with a card of
  the hand.
\<close>

theorem end_turn_skips_disconnected:
  "(\<not> is_connected (heap l q) \<longrightarrow>
      heap (snd (end_turn s l)) q = heap l q
      \<and> heap (snd (try_end_turn s t l)) q = heap l q
      \<and> (card_on_table_of l q = None \<longrightarrow>
            card_on_table_of (snd (end_turn s l)) q = None
            \<and> card_on_table_of (snd (try_end_turn s t l)) q = None))
   \<and> (\<not> list_ex (\<lambda>pl. is_connected (heap l pl) \<and> \<not> is_ready (heap l pl)) (players l)
        \<and> lead l \<noteq> None \<longrightarrow>
        fst (try_end_turn s t l) = Inr ()
        \<and> state (snd (try_end_turn s t l)) = Judgement s None)
   \<and> (\<forall>l'. end_turn s l = (Inr (), l') \<longrightarrow>
        state l' = Judgement s None
        \<and> (\<forall>p \<in> set (players l). is_connected (heap l p) \<and> \<not> is_ready (heap l p) \<longrightarrow>
              is_ready (heap l' p)
              \<and> (\<exists>c \<in> set (hand (heap l p)).
                    \<lparr>card = c, player = p, is_open = False\<rparr> \<in> set (table l'))))"
proof -
  have skip: "heap (snd (end_turn s l)) q = heap l q
      \<and> heap (snd (try_end_turn s t l)) q = heap l q
      \<and> (card_on_table_of l q = None \<longrightarrow>
            card_on_table_of (snd (end_turn s l)) q = None
            \<and> card_on_table_of (snd (try_end_turn s t l)) q = None)"
    if dis: "\<not> is_connected (heap l q)"
  proof -
    from dis have dis': "\<not> is_connected (heap (cancel t l) q)" by (simp add: cancel_frame)
    have none: "card_on_table_of (cancel t l) q = card_on_table_of l q"
      by (simp add: card_on_table_of_def cancel_frame)
    note a = end_turn_skips[OF dis, of s] end_turn_skips[OF dis', of s]
    have e1: "card_on_table_of l q = None \<Longrightarrow> card_on_table_of (snd (end_turn s l)) q = None"
      using card_on_table_of_None_mset[OF a(2)] .
    have e2: "card_on_table_of l q = None \<Longrightarrow>
              card_on_table_of (snd (end_turn s (cancel t l))) q = None"
      using card_on_table_of_None_mset[OF a(4)] none by simp
    show ?thesis
    proof (cases "list_ex (\<lambda>pl. is_connected (heap l pl) \<and> \<not> is_ready (heap l pl)) (players l)")
      case True
      with a(1) e1 show ?thesis by (simp add: try_end_turn_cases(1))
    next
      case False
      with a e1 e2 show ?thesis by (simp add: try_end_turn_cases(2) cancel_frame)
    qed
  qed
  have resolve: "fst (try_end_turn s t l) = Inr ()
        \<and> state (snd (try_end_turn s t l)) = Judgement s None"
    if ready: "\<not> list_ex (\<lambda>pl. is_connected (heap l pl) \<and> \<not> is_ready (heap l pl)) (players l)"
      and ld: "lead l \<noteq> None"
  proof -
    from ready have "\<not> list_ex (\<lambda>pl. is_connected (heap (cancel t l) pl)
                        \<and> \<not> is_ready (heap (cancel t l) pl)) (players (cancel t l))"
      by (simp add: cancel_frame)
    from auto_submit_all_ready[OF this]
    have a: "auto_submit (players (cancel t l)) (cancel t l) = (Inr (), cancel t l)" .
    from end_turn_after_auto_submit(3)[OF a, of s] ld ready show ?thesis
      by (simp add: try_end_turn_cases(2) cancel_frame)
  qed
  have submit: "state l' = Judgement s None
        \<and> (\<forall>p \<in> set (players l). is_connected (heap l p) \<and> \<not> is_ready (heap l p) \<longrightarrow>
              is_ready (heap l' p)
              \<and> (\<exists>c \<in> set (hand (heap l p)).
                    \<lparr>card = c, player = p, is_open = False\<rparr> \<in> set (table l')))"
    if run: "end_turn s l = (Inr (), l')" for l'
  proof -
    obtain r l1 where a: "auto_submit (players l) l = (r, l1)"
      by (cases "auto_submit (players l) l")
    note e = end_turn_after_auto_submit[OF a, where s = s]
    from run e(5) have r: "r = Inr ()" by (cases r) auto
    from run e(4)[OF r] have "lead l1 \<noteq> None" by auto
    from e(3)[OF r this] run have "state l' = Judgement s None" by simp
    with end_turn_submits[OF run] show ?thesis by blast
  qed
  from skip resolve submit show ?thesis by blast
qed

theorem end_turn_skips_disconnected_witness:
  "\<not> is_connected (heap round1_gone 3)
   \<and> card_on_table_of round1_gone 3 = None
   \<and> 2 \<in> set (players round1_gone)
   \<and> is_connected (heap round1_gone 2)
   \<and> \<not> is_ready (heap round1_gone 2)
   \<and> fst (end_turn (sc 3) round1_gone) = Inr ()
   \<and> table (snd (end_turn (sc 3) round1_gone)) = [\<lparr>card = pc 30, player = 2, is_open = False\<rparr>]
   \<and> state (snd (end_turn (sc 3) round1_gone)) = Judgement (sc 3) None
   \<and> card_on_table_of (snd (end_turn (sc 3) round1_gone)) 3 = None
   \<and> heap (snd (end_turn (sc 3) round1_gone)) 3 = heap round1_gone 3
   \<and> is_ready (heap (snd (end_turn (sc 3) round1_gone)) 2)"
proof -
  obtain r l' where e: "end_turn (sc 3) round1_gone = (r, l')"
    by (cases "end_turn (sc 3) round1_gone")
  have "fst (end_turn (sc 3) round1_gone) = Inr ()"
    by (simp add: round1_def round1_gone_def end_turn_def choice_def
        put_card_on_table_def card_on_table_of_def shuffle_def
        transit_to_def notify_def upd_player_def all_players_def Let_def)
  with e have r: "r = Inr ()" by simp
  have "table (snd (end_turn (sc 3) round1_gone))
       = [\<lparr>card = pc 30, player = 2, is_open = False\<rparr>]"
    by (simp add: round1_def round1_gone_def end_turn_def choice_def
        put_card_on_table_def card_on_table_of_def shuffle_def
        transit_to_def notify_def upd_player_def all_players_def Let_def)
  with e have tbl: "table l' = [\<lparr>card = pc 30, player = 2, is_open = False\<rparr>]" by simp
  have pre: "\<not> is_connected (heap round1_gone 3)"
    "card_on_table_of round1_gone 3 = None"
    "2 \<in> set (players round1_gone)"
    "is_connected (heap round1_gone 2)"
    "\<not> is_ready (heap round1_gone 2)"
    by (simp_all add: round1_def round1_gone_def card_on_table_of_def)
  from end_turn_skips_disconnected[of round1_gone 3 "sc 3" 0] pre
  have "heap l' 3 = heap round1_gone 3" "card_on_table_of l' 3 = None"
    "state l' = Judgement (sc 3) None" "is_ready (heap l' 2)"
    unfolding e r by simp_all
  with pre r tbl show ?thesis unfolding e by simp
qed

theorem disconnected_player_not_submitted_counterexample:
  "(run [Disconnect 3] round1)\<lparr>events := []\<rparr> = round1_gone
   \<and> state round1_gone = Turns (sc 3) 0
   \<and> \<not> is_connected (heap round1_gone 3)
   \<and> card_on_table_of round1_gone 3 = None
   \<and> length (hand (heap round1_gone 3)) = 10
   \<and> fst (Player_make_turn 2 (pc 21) round1_gone)
       = Inr \<lparr>card = pc 21, player = 2, is_open = False\<rparr>
   \<and> state (snd (Player_make_turn 2 (pc 21) round1_gone)) = Judgement (sc 3) None
   \<and> table (snd (Player_make_turn 2 (pc 21) round1_gone))
       = [\<lparr>card = pc 21, player = 2, is_open = False\<rparr>]
   \<and> card_on_table_of (snd (Player_make_turn 2 (pc 21) round1_gone)) 3 = None
   \<and> length (hand (heap (snd (Player_make_turn 2 (pc 21) round1_gone)) 3)) = 10"
  by (intro conjI scenario_disconnect)
     (simp_all add: round1_def round1_gone_def Player_make_turn_def make_turn_def
        try_end_turn_def end_turn_def get_card_from_table_def cancel_def
        put_card_on_table_def card_on_table_of_def shuffle_def
        transit_to_def notify_def upd_player_def all_players_def Let_def)

section \<open>What every call and every task keeps\<close>

lemma advance_refl: "advance l l"
  by (simp add: advance_def)

lemma advance_trans [trans]: "advance l l1 \<Longrightarrow> advance l1 l2 \<Longrightarrow> advance l l2"
  unfolding advance_def
  by (elim conjE exE) (auto simp: all_conj_distrib)

lemma advanceI:
  "is_game_endless l' = is_game_endless l \<Longrightarrow> map player (table l') = map player (table l)
   \<Longrightarrow> tasks l' = tasks l \<Longrightarrow> state l' = state l \<Longrightarrow> advance l l'"
  by (simp add: advance_def)

lemma deals_only_advance: "deals_only l l' \<Longrightarrow> advance l l'"
  by (simp add: advance_def deals_only_def)

lemma advance_notify: "advance l l' \<Longrightarrow> advance l (notify ps ev l')"
  by (simp add: advance_def notify_def)

lemma advance_upd_player: "advance l l' \<Longrightarrow> advance l (upd_player p f l')"
  by (simp add: advance_def upd_player_def)

lemma advance_transit_to:
  "advance l l' \<Longrightarrow> \<not> is_finished s \<Longrightarrow> advance l (transit_to s l')"
  by (simp add: advance_def transit_to_def)

lemma advance_cancel: "advance l l' \<Longrightarrow> advance l (cancel t l')"
  by (simp add: advance_def cancel_def)

lemma advance_change_lead: "advance l (snd (change_lead l))"
  by (auto simp: change_lead_def Let_def advance_def split: option.splits list.splits)

lemma advance_draw_setup: "advance l (snd (draw_setup l))"
  by (auto simp: draw_setup_def advance_def split: prod.splits)

lemma advance_start_turn_deal: "advance l (snd (start_turn_deal s ps l))"
  using deals_only_start_turn_deal[OF deals_only_refl] by (rule deals_only_advance)

lemma advance_start_turn: "advance l (snd (start_turn l))"
proof -
  obtain r1 l1 where cl: "change_lead l = (r1, l1)" by (cases "change_lead l")
  have a1: "advance l l1" using advance_change_lead[of l] cl by simp
  show ?thesis
  proof (cases r1)
    case (Inl e)
    with cl a1 show ?thesis by (simp add: start_turn_def)
  next
    case (Inr u)
    obtain r2 l2 where ds: "draw_setup l1 = (r2, l2)" by (cases "draw_setup l1")
    have a2: "advance l l2" using advance_draw_setup[of l1] ds a1 advance_trans by fastforce
    show ?thesis
    proof (cases r2)
      case (Inl e)
      with cl Inr ds a2 show ?thesis by (simp add: start_turn_def)
    next
      case r2: (Inr new_setup)
      define l4 where "l4 = transit_to (Turns new_setup (length (tasks l2)))
                   (create_task Turn_timer (l2\<lparr>turn_count := turn_count l2 + 1\<rparr>))"
      have "advance l2 l4"
        by (simp add: l4_def advance_def transit_to_def create_task_def)
      with a2 have "advance l l4" by (rule advance_trans)
      then have "advance l (snd (start_turn_deal new_setup (all_players l4) l4))"
        using advance_start_turn_deal advance_trans by blast
      with cl Inr ds r2 show ?thesis
        by (simp add: start_turn_def Let_def l4_def transit_to_def create_task_def)
    qed
  qed
qed

lemma distinct_map_remove1: "distinct (map f xs) \<Longrightarrow> distinct (map f (remove1 x xs))"
proof (induction xs)
  case Nil
  then show ?case by simp
next
  case (Cons a xs)
  have "set (remove1 x xs) \<subseteq> set xs" by (rule set_remove1_subset)
  with Cons show ?case by auto
qed

lemma remove1_found_player:
  "distinct (map player xs) \<Longrightarrow> find (\<lambda>e. player e = p) xs = Some prev \<Longrightarrow>
   p \<notin> player ` set (remove1 prev xs)"
proof (induction xs)
  case Nil
  then show ?case by simp
next
  case (Cons a xs)
  show ?case
  proof (cases "player a = p")
    case True
    with Cons.prems show ?thesis by auto
  next
    case False
    with Cons.prems have f: "find (\<lambda>e. player e = p) xs = Some prev" and d: "distinct (map player xs)"
      by auto
    from find_player_Some[OF f] False have "a \<noteq> prev" by auto
    with Cons.IH[OF d f] False show ?thesis by auto
  qed
qed

lemma find_player_None: "find (\<lambda>e. player e = p) xs = None \<Longrightarrow> p \<notin> player ` set xs"
  by (induction xs) (auto split: if_splits)

lemma put_card_on_table_distinct:
  assumes "distinct (map player (table l))"
  shows "distinct (map player (table (snd (put_card_on_table p c l))))"
proof (cases "c \<in> set (hand (heap l p))")
  case False
  with assms show ?thesis by (simp add: put_card_on_table_fail)
next
  case True
  show ?thesis
  proof (cases "card_on_table_of l p")
    case None
    then have "p \<notin> player ` set (table l)"
      using find_player_None[of p "table l"] by (simp add: card_on_table_of_def)
    with assms True None show ?thesis by (simp add: put_card_on_table_ok(2))
  next
    case (Some prev)
    then have f: "find (\<lambda>e. player e = p) (table l) = Some prev"
      by (simp add: card_on_table_of_def)
    from remove1_found_player[OF assms f] distinct_map_remove1[OF assms, of prev]
    show ?thesis using True Some by (simp add: put_card_on_table_ok(2))
  qed
qed

lemma put_card_on_table_frame:
  "tasks (snd (put_card_on_table p c l)) = tasks l"
  "is_game_endless (snd (put_card_on_table p c l)) = is_game_endless l"
  "cancelled (snd (put_card_on_table p c l)) = cancelled l"
  "state (snd (put_card_on_table p c l)) = state l"
  by (auto simp: put_card_on_table_def Let_def notify_def upd_player_def split: option.splits)

lemma advance_put_card_on_table: "advance l (snd (put_card_on_table p c l))"
  using put_card_on_table_distinct[of l p c]
  by (simp add: advance_def put_card_on_table_frame)

lemma advance_auto_submit: "advance l0 l \<Longrightarrow> advance l0 (snd (auto_submit ps l))"
proof (induction ps arbitrary: l)
  case Nil
  then show ?case by simp
next
  case (Cons p ps)
  show ?case
  proof (cases "is_connected (heap l p) \<and> \<not> is_ready (heap l p)")
    case False
    from Cons.IH[OF Cons.prems] show ?thesis
      by (simp only: auto_submit_Cons_skip[OF False])
  next
    case True
    obtain r g where ch: "choice (hand (heap l p)) (rng l) = (r, g)"
      by (cases "choice (hand (heap l p)) (rng l)")
    have a0: "advance l0 (l\<lparr>rng := g\<rparr>)"
      using Cons.prems by (simp add: advance_def)
    show ?thesis
    proof (cases r)
      case (Inl e)
      with True ch a0 show ?thesis by simp
    next
      case (Inr c)
      obtain r1 l1 where put: "put_card_on_table p c (l\<lparr>rng := g\<rparr>) = (r1, l1)"
        by (cases "put_card_on_table p c (l\<lparr>rng := g\<rparr>)")
      have a1: "advance l0 l1"
        using advance_trans[OF a0 advance_put_card_on_table[of "l\<lparr>rng := g\<rparr>" p c]] put
        by simp
      show ?thesis
      proof (cases r1)
        case (Inl e)
        with True ch Inr put a1 show ?thesis by simp
      next
        case r1: (Inr u)
        from Cons.IH[OF a1] True ch Inr put r1 show ?thesis by simp
      qed
    qed
  qed
qed

lemma distinct_map_mset:
  "mset xs = mset ys \<Longrightarrow> distinct (map f xs) \<Longrightarrow> distinct (map f ys)"
  by (metis mset_map mset_eq_imp_distinct_iff)

lemma advance_end_turn: "advance l (snd (end_turn s l))"
proof -
  obtain r l1 where a: "auto_submit (players l) l = (r, l1)"
    by (cases "auto_submit (players l) l")
  have a1: "advance l l1" using advance_auto_submit[OF advance_refl, of l "players l"] a by simp
  show ?thesis
  proof (cases r)
    case (Inl e)
    with a a1 show ?thesis by (simp add: end_turn_def)
  next
    case (Inr u)
    obtain tbl g where sh: "shuffle (table l1) (rng l1) = (tbl, g)"
      by (cases "shuffle (table l1) (rng l1)")
    have m: "mset (table l1) = mset tbl" using shuffle_mset[of "table l1" "rng l1"] sh by simp
    have "advance l1 (l1\<lparr>table := tbl, rng := g\<rparr>)"
      using distinct_map_mset[OF m, of player] by (simp add: advance_def)
    with a1 have "advance l (l1\<lparr>table := tbl, rng := g\<rparr>)" by (rule advance_trans)
    then have "advance l (snd (end_turn s l))"
      using a Inr sh
      by (auto simp: end_turn_def Let_def split: option.splits
          intro!: advance_transit_to advance_notify)
    then show ?thesis .
  qed
qed

lemma advance_try_end_turn: "advance l (snd (try_end_turn s t l))"
proof -
  have "advance l (cancel t l)" by (rule advance_cancel[OF advance_refl])
  then have "advance l (snd (end_turn s (cancel t l)))"
    using advance_end_turn advance_trans by blast
  then show ?thesis by (simp add: try_end_turn_def advance_refl)
qed

lemma advance_make_turn: "advance l (snd (make_turn s t p c l))"
proof -
  obtain r l1 where put: "put_card_on_table p c l = (r, l1)" by (cases "put_card_on_table p c l")
  have "advance l l1" using advance_put_card_on_table[of l p c] put by simp
  with put show ?thesis
    using advance_try_end_turn[of l1 s t]
    by (cases r) (auto simp: make_turn_def intro: advance_trans)
qed

lemma advance_step: "advance l l1 \<Longrightarrow> advance l1 (snd (f l1)) \<Longrightarrow> f l1 = (r, l2) \<Longrightarrow> advance l l2"
  using advance_trans by fastforce

lemma advance_add_player: "advance l (add_player p l)"
  by (simp add: add_player_def Let_def advance_def notify_def)

lemma advance_top_up: "advance l (snd (top_up p l))"
  using deals_only_top_up[OF deals_only_refl] by (rule deals_only_advance)

lemma advance_connect: "advance l (snd (connect p l))"
proof (cases "p \<in> set (all_players l) \<or> p \<in> grave l")
  case False
  then show ?thesis by (simp add: connect_def advance_refl)
next
  case True
  define l1 where "l1 = (if p \<in> set (all_players l) then l
                  else add_player p (l\<lparr>grave := grave l - {p}\<rparr>))"
  note k = connect_known(1)[OF True, folded l1_def]
  have "advance l (l\<lparr>grave := grave l - {p}\<rparr>)" by (simp add: advance_def)
  then have a1: "advance l l1"
    using advance_add_player advance_trans by (auto simp: l1_def advance_refl)
  show ?thesis
  proof (cases "state l = Gathering")
    case G: True
    with k a1 show ?thesis by (simp add: advance_notify)
  next
    case G: False
    obtain r l2 where t: "top_up p l1 = (r, l2)" by (cases "top_up p l1")
    have "advance l l2" using a1 advance_top_up[of l1 p] t advance_trans by fastforce
    with k G t show ?thesis by (cases r) (simp_all add: advance_notify)
  qed
qed

lemma advance_Player_connect: "advance l (snd (Player_connect p l))"
proof -
  obtain r l1 where c: "connect p l = (r, l1)" by (cases "connect p l")
  have "advance l l1" using advance_connect[of l p] c by simp
  with c show ?thesis
    by (cases r) (simp_all add: Player_connect_def advance_notify advance_upd_player)
qed

lemma advance_Player_disconnect: "advance l (Player_disconnect p l)"
  by (simp add: Player_disconnect_def Let_def advance_notify advance_upd_player advance_refl)

lemma advance_deal_hands: "advance l (snd (deal_hands ps l))"
  using deals_only_deal_hands[OF deals_only_refl] by (rule deals_only_advance)

lemma advance_Gathering_start_game:
  "advance l (snd (Gathering_start_game p st su pu l))"
proof (cases "Some p \<noteq> owner l")
  case True
  then show ?thesis by (simp add: Gathering_start_game_def advance_refl)
next
  case False
  define l1 where "l1 = l\<lparr>setups := su, punchlines := pu, settings := st\<rparr>"
  have a1: "advance l l1" by (simp add: l1_def advance_def)
  obtain r l2 where d: "deal_hands (all_players l1) l1 = (r, l2)"
    by (cases "deal_hands (all_players l1) l1")
  have a2: "advance l l2"
    using a1 advance_deal_hands[of l1 "all_players l1"] d advance_trans by fastforce
  have "advance l (snd (start_turn l2))" using a2 advance_start_turn advance_trans by blast
  with False d a2 show ?thesis
    by (cases r) (simp_all add: Gathering_start_game_def Let_def l1_def)
qed

lemma advance_fold_upd_player:
  "advance l0 l \<Longrightarrow> advance l0 (fold (\<lambda>pl. upd_player pl (f pl)) ps l)"
  by (induction ps arbitrary: l) (simp_all add: advance_upd_player)

lemma advance_Finished_start_game:
  "advance l (snd (Finished_start_game p st su pu l))"
proof -
  define l1 where "l1 = l\<lparr>table := [], turn_count := 0\<rparr>"
  define l3 where "l3 = transit_to Gathering
     (fold (\<lambda>pl. upd_player pl (\<lambda>x. x\<lparr>hand := [], score := 0\<rparr>)) (all_players l1) l1)"
  have "advance l l1" by (simp add: l1_def advance_def)
  then have "advance l l3"
    unfolding l3_def by (intro advance_transit_to advance_fold_upd_player) simp_all
  then have "advance l (snd (Gathering_start_game p st su pu l3))"
    using advance_Gathering_start_game advance_trans by blast
  then show ?thesis by (simp add: Finished_start_game_def Let_def l1_def l3_def)
qed

lemma advance_Player_start_game: "advance l (snd (Player_start_game p st su pu l))"
  by (cases "state l")
     (simp_all add: Player_start_game_def advance_Gathering_start_game
        advance_Finished_start_game advance_refl)

lemma advance_refresh_hand: "advance l (snd (refresh_hand p l))"
proof (cases "is_ready (heap l p)")
  case True
  then show ?thesis by (simp add: refresh_hand_def advance_refl)
next
  case False
  obtain r l1 where d: "draw_hand HAND_SIZE l = (r, l1)" by (cases "draw_hand HAND_SIZE l")
  have a1: "advance l l1"
    using deals_only_advance[OF deals_only_draw_hand[OF deals_only_refl, of l HAND_SIZE]] d
    by simp
  show ?thesis
  proof (cases r)
    case (Inl e)
    with False d a1 show ?thesis by (simp add: refresh_hand_def)
  next
    case (Inr new_hand)
    have "advance l1 (l1\<lparr>punchlines := dump (punchlines l1) (hand (heap l1 p))\<rparr>)"
      by (simp add: advance_def)
    with a1 have "advance l (l1\<lparr>punchlines := dump (punchlines l1) (hand (heap l1 p))\<rparr>)"
      by (rule advance_trans)
    with False d Inr show ?thesis
      by (simp add: refresh_hand_def Let_def advance_notify advance_upd_player)
  qed
qed

lemma advance_Player_refresh_hand: "advance l (snd (Player_refresh_hand p l))"
  by (cases "state l") (simp_all add: Player_refresh_hand_def advance_refresh_hand advance_refl)

lemma advance_Player_make_turn: "advance l (snd (Player_make_turn p c l))"
proof (cases "state l")
  case (Turns s timer)
  obtain r l1 where m: "make_turn s timer p c l = (r, l1)" by (cases "make_turn s timer p c l")
  have "advance l l1" using advance_make_turn[of l s timer p c] m by simp
  with Turns m show ?thesis by (cases r) (simp_all add: Player_make_turn_def)
qed (simp_all add: Player_make_turn_def advance_refl)

lemma map_player_open:
  "i < length xs \<Longrightarrow> map player (xs[i := (xs ! i)\<lparr>is_open := True\<rparr>]) = map player xs"
  by (simp add: map_update list_update_same_conv)

lemma advance_open_table_card: "advance l (snd (open_table_card p i l))"
  by (auto simp: open_table_card_def Let_def advance_refl map_player_open
        intro!: advance_notify advanceI)

lemma advance_Player_open_table_card: "advance l (snd (Player_open_table_card p i l))"
  by (cases "state l")
     (simp_all add: Player_open_table_card_def advance_open_table_card advance_refl)

lemma advance_pick_turn_winner: "advance l (snd (pick_turn_winner s p c l))"
  by (auto simp: pick_turn_winner_def Let_def advance_def notify_def upd_player_def
        create_task_def split: sum.splits option.splits)

lemma advance_Player_pick_turn_winner: "advance l (snd (Player_pick_turn_winner p c l))"
  by (cases "state l")
     (simp_all add: Player_pick_turn_winner_def advance_pick_turn_winner advance_refl)

lemma advance_Judgement_start_turn: "advance l (snd (Judgement_start_turn s l))"
proof -
  have "advance l (l\<lparr>setups := dump (setups l) [s]\<rparr>)" by (simp add: advance_def)
  then show ?thesis
    unfolding Judgement_start_turn_def using advance_start_turn advance_trans by blast
qed

lemma advance_continue_game: "advance l (snd (continue_game s p l))"
proof (cases "Some p \<noteq> owner l")
  case True
  then show ?thesis by (simp add: continue_game_def advance_refl)
next
  case False
  have "advance l (l\<lparr>is_game_endless := True, setups := dump (setups l) [s]\<rparr>)"
    by (simp add: advance_def)
  then have "advance l (snd (start_turn (l\<lparr>is_game_endless := True, setups := dump (setups l) [s]\<rparr>)))"
    using advance_start_turn advance_trans by blast
  with False show ?thesis by (simp add: continue_game_def Finished_start_turn_def)
qed

lemma advance_Player_continue_game: "advance l (snd (Player_continue_game p l))"
  by (cases "state l")
     (simp_all add: Player_continue_game_def advance_continue_game advance_refl)

lemma advance_finish_game:
  "Finish_game_task s w \<in> set (tasks l) \<Longrightarrow> advance l (finish_game s w l)"
  by (auto simp: finish_game_def advance_def transit_to_def notify_def
        intro: bexI[of _ "Finish_game_task s w"])

lemma advance_run_task: "advance l (snd (run_task h l))"
proof (cases "h \<in> cancelled l \<or> length (tasks l) \<le> h")
  case True
  then show ?thesis by (auto simp: run_task_def advance_refl)
next
  case False
  show ?thesis
  proof (cases "tasks l ! h")
    case Turn_timer
    with False show ?thesis
      by (cases "state l")
         (auto simp: run_task_def advance_refl advance_end_turn split: option.splits)
  next
    case (Finish_game_task s w)
    with False have "Finish_game_task s w \<in> set (tasks l)"
      by (metis nth_mem not_le)
    with False Finish_game_task show ?thesis by (auto simp: run_task_def advance_finish_game)
  next
    case (Start_turn_task s)
    with False show ?thesis by (auto simp: run_task_def advance_Judgement_start_turn)
  qed
qed

lemma advance_remove_player: "advance l (snd (remove_player p l))"
proof -
  define l1 where "l1 = (if lead l = Some p then l\<lparr>lead := None\<rparr> else l)"
  define l2 where "l2 = (if p \<in> set (players l1) then l1\<lparr>players := remove1 p (players l1)\<rparr> else l1)"
  define l3 where "l3 = (if owner l2 = Some p then
                  (let l2' = change_owner l2
                   in notify (all_players_except l2' p) (Owner_changed (owner l2')) l2')
                else l2)"
  define l4 where "l4 = l3\<lparr>grave := insert p (grave l3)\<rparr>"
  define l5 where "l5 = (case find (\<lambda>e. player e = p) (table l4) of
                  Some e \<Rightarrow> l4\<lparr>punchlines := dump (punchlines l4) [card e],
                                table := remove1 e (table l4)\<rparr>
                | None \<Rightarrow> l4)"
  define l6 where "l6 = notify (all_players_except l5 p) (Player_left p) l5"
  have "advance l l1" by (simp add: l1_def advance_def)
  also have "advance l1 l2" by (simp add: l2_def advance_def)
  also have "advance l2 l3" by (simp add: l3_def advance_def Let_def change_owner_def notify_def)
  also have "advance l3 l4" by (simp add: l4_def advance_def)
  also have "advance l4 l5"
    by (auto simp: l5_def advance_def distinct_map_remove1 split: option.splits)
  also have "advance l5 l6" by (simp add: l6_def advance_notify advance_refl)
  finally have a6: "advance l l6" .
  have r: "remove_player p l =
     (case state l6 of
           Turns s timer \<Rightarrow> try_end_turn s timer l6
         | Judgement s w \<Rightarrow>
             (if lead l6 = Some p then (Inl NotImplementedError, l6) else (Inr (), l6))
         | _ \<Rightarrow> (Inr (), l6))"
    by (simp only: remove_player_def Let_def l1_def l2_def l3_def l4_def l5_def l6_def)
  show ?thesis
    unfolding r using a6 advance_trans[OF a6 advance_try_end_turn]
    by (cases "state l6") auto
qed

lemma advance_step_action: "advance l (step a l)"
  by (cases a)
     (simp_all add: advance_add_player advance_Player_connect advance_Player_disconnect
        advance_remove_player advance_Player_start_game advance_Player_refresh_hand
        advance_Player_make_turn advance_Player_open_table_card
        advance_Player_pick_turn_winner advance_Player_continue_game advance_run_task)

lemma advance_run: "advance l (run as l)"
proof (induction as arbitrary: l)
  case Nil
  show ?case by (simp add: advance_refl)
next
  case (Cons a as)
  from advance_trans[OF advance_step_action Cons.IH] show ?case by simp
qed

section \<open>Failures that leave the lobby changed\<close>

lemma fold_reset_heap:
  "heap (fold (\<lambda>pl. upd_player pl (\<lambda>x. x\<lparr>hand := [], score := 0\<rparr>)) ps l) q =
     (if q \<in> set ps then (heap l q)\<lparr>hand := [], score := 0\<rparr> else heap l q)"
  by (induction ps arbitrary: l) (auto simp: upd_player_def)

lemma fold_reset_frame:
  "(fold (\<lambda>pl. upd_player pl f) ps l)\<lparr>heap := h\<rparr> = l\<lparr>heap := h\<rparr>"
  by (induction ps arbitrary: l) (auto simp: upd_player_def)

lemma Finished_start_game_not_owner:
  assumes "Some p \<noteq> owner l"
  shows "fst (Finished_start_game p st su pu l) = Inl PlayerNotOwnerError"
    and "state (snd (Finished_start_game p st su pu l)) = Gathering"
    and "table (snd (Finished_start_game p st su pu l)) = []"
    and "turn_count (snd (Finished_start_game p st su pu l)) = 0"
    and "q \<in> set (all_players l) \<Longrightarrow>
           hand (heap (snd (Finished_start_game p st su pu l)) q) = []
           \<and> score (heap (snd (Finished_start_game p st su pu l)) q) = 0"
proof -
  define l2 where "l2 = fold (\<lambda>pl. upd_player pl (\<lambda>x. x\<lparr>hand := [], score := 0\<rparr>))
                          (all_players (l\<lparr>table := [], turn_count := 0\<rparr>))
                          (l\<lparr>table := [], turn_count := 0\<rparr>)"
  have fr: "l2\<lparr>heap := heap l\<rparr> = l\<lparr>table := [], turn_count := 0\<rparr>"
    by (simp add: l2_def fold_reset_frame)
  have o: "owner l2 = owner l" "table l2 = []" "turn_count l2 = 0"
    using arg_cong[OF fr, of owner] arg_cong[OF fr, of table] arg_cong[OF fr, of turn_count]
    by simp_all
  have r: "Finished_start_game p st su pu l = (Inl PlayerNotOwnerError, transit_to Gathering l2)"
    using assms o(1)
    by (simp add: Finished_start_game_def Let_def l2_def[symmetric] Gathering_start_game_def
          transit_to_def)
  show "fst (Finished_start_game p st su pu l) = Inl PlayerNotOwnerError"
    "state (snd (Finished_start_game p st su pu l)) = Gathering"
    "table (snd (Finished_start_game p st su pu l)) = []"
    "turn_count (snd (Finished_start_game p st su pu l)) = 0"
    using o by (simp_all add: r transit_to_def)
  show "hand (heap (snd (Finished_start_game p st su pu l)) q) = []
           \<and> score (heap (snd (Finished_start_game p st su pu l)) q) = 0"
    if "q \<in> set (all_players l)"
    using that by (simp add: r transit_to_def l2_def fold_reset_heap all_players_update)
qed

text \<open>
  C1. \<^verbatim>\<open>Finished.start_game\<close> resets the lobby before it reaches the owner check of
  \<^verbatim>\<open>Gathering.start_game\<close>: for every caller who is not the owner the call raises
  \<^verbatim>\<open>PlayerNotOwnerError\<close>, and leaves the lobby in \<^verbatim>\<open>Gathering\<close> with an empty table, the
  round counter at 0 and every participant's hand empty and score 0. The theorem
  evaluates the call by player 2 on the finished game of the scenario, whose owner is
  player 1.
\<close>

theorem Finished_start_game_by_non_owner:
  "state finished1 = Finished 3 (sc 3) \<and> owner finished1 = Some 1
   \<and> Player_start_game 2 example_settings example_setups example_punchlines finished1
       = (Inl PlayerNotOwnerError,
          finished1
            \<lparr>state := Gathering, turn_count := 0,
             heap := (\<lambda>_. Player)
               (1 := \<lparr>hand = [], score = 0, is_ready = False, is_connected = True\<rparr>,
                2 := \<lparr>hand = [], score = 0, is_ready = True, is_connected = True\<rparr>,
                3 := \<lparr>hand = [], score = 0, is_ready = True, is_connected = True\<rparr>)\<rparr>)
   \<and> turn_count finished1 = 1
   \<and> score (heap finished1 3) = 1
   \<and> length (hand (heap finished1 1)) = 10"
  by (simp add: Player_start_game_def Finished_start_game_def Gathering_start_game_def
        finished1_def judgement1_def round1_def
        all_players_def upd_player_def transit_to_def Let_def)

text \<open>
  C2. \<^verbatim>\<open>Turns.refresh_hand\<close> checks the score after it has drawn the new hand, discarded
  the old one and replaced it. The theorem evaluates the call for player 2 with score -1
  (the state after one refresh in round 1): it raises \<^verbatim>\<open>ScoreTooLowError\<close>, the score is
  unchanged, but the player holds ten other cards and the punchline deck has changed.
\<close>

theorem refresh_hand_low_score_replaces_hand:
  "state round1_low = Turns (sc 3) 0
   \<and> score (heap round1_low 2) = - 1 \<and> \<not> is_ready (heap round1_low 2)
   \<and> hand (heap round1_low 2) = map pc [10, 9, 8, 7, 6, 5, 4, 3, 2, 1]
   \<and> Player_refresh_hand 2 round1_low
       = (Inl ScoreTooLowError,
          round1_low
            \<lparr>punchlines := \<lparr>cards = [], dump_pile = map pc [10, 9, 8, 7, 6, 5, 4, 3, 2, 1]\<rparr>,
             heap := (heap round1_low)
               (2 := \<lparr>hand = map pc [30, 21, 22, 23, 24, 25, 26, 27, 28, 29], score = - 1,
                      is_ready = False, is_connected = True\<rparr>)\<rparr>)"
  by (simp add: round1_def round1_low_def Player_refresh_hand_def refresh_hand_def
        HAND_SIZE_def draw_hand_numeral draw_punchline_def get_card_def dump_def
        shuffle_deck_def shuffle_def shuffle_from_numeral
        notify_def upd_player_def all_players_def Let_def)

section \<open>Picking the winner\<close>

lemma pick_turn_winner_Inr:
  assumes "pick_turn_winner s p c l = (Inr (), l')"
  obtains entry where "get_card_from_table l c = Inr entry"
    and "l' = create_task
           (if is_game_endless l then Start_turn_task s
            else (case find (\<lambda>pl. score (heap l' pl) = winning_score (settings l)) (players l) of
                    Some w \<Rightarrow> Finish_game_task s w
                  | None \<Rightarrow> Start_turn_task s))
           (l\<lparr>heap := (heap l)(player entry :=
                   (heap l (player entry))\<lparr>score := score (heap l (player entry)) + 1\<rparr>),
              state := Judgement s (Some (player entry)),
              events := events l @ map (\<lambda>q. (q, Turn_ended (player entry) c)) (all_players l),
              punchlines := dump (punchlines l) (map card (table l)),
              table := []\<rparr>)"
proof -
  from assms obtain entry where g: "get_card_from_table l c = Inr entry"
    by (cases "get_card_from_table l c")
       (auto simp: pick_turn_winner_def split: if_splits)
  from assms g have "l' = create_task
           (if is_game_endless l then Start_turn_task s
            else (case find (\<lambda>pl. score (heap l' pl) = winning_score (settings l)) (players l) of
                    Some w \<Rightarrow> Finish_game_task s w
                  | None \<Rightarrow> Start_turn_task s))
           (l\<lparr>heap := (heap l)(player entry :=
                   (heap l (player entry))\<lparr>score := score (heap l (player entry)) + 1\<rparr>),
              state := Judgement s (Some (player entry)),
              events := events l @ map (\<lambda>q. (q, Turn_ended (player entry) c)) (all_players l),
              punchlines := dump (punchlines l) (map card (table l)),
              table := []\<rparr>)"
    by (auto simp: pick_turn_winner_def Let_def notify_def upd_player_def create_task_def
          all_players_update
          split: if_splits option.splits)
  with g that show thesis by blast
qed

text \<open>
  C5, as the code has it. After the round winner's score is raised, a judgement that is
  not endless looks for the first player of the roster (the lead is not in it;
  connection is not looked at) whose score equals the winning score exactly: when there
  is one, the task it creates is \<^verbatim>\<open>finish_game\<close> for that player, which moves the lobby
  to \<^verbatim>\<open>Finished\<close> with that player as winner, and no next round is scheduled; when there
  is none, or the game is endless, the task is the next round's \<^verbatim>\<open>start_turn\<close>.
\<close>

theorem pick_turn_winner_finishes_on_equal_score:
  assumes "pick_turn_winner s p c l = (Inr (), l')"
  shows "(\<exists>entry. get_card_from_table l c = Inr entry
            \<and> heap l' = (heap l)(player entry :=
                  (heap l (player entry))\<lparr>score := score (heap l (player entry)) + 1\<rparr>))
       \<and> players l' = players l \<and> lead l' = lead l \<and> table l' = []
       \<and> tasks l' = tasks l @
           [if is_game_endless l then Start_turn_task s
            else (case find (\<lambda>pl. score (heap l' pl) = winning_score (settings l)) (players l) of
                    Some w \<Rightarrow> Finish_game_task s w
                  | None \<Rightarrow> Start_turn_task s)]
       \<and> (\<not> is_game_endless l
            \<and> (\<forall>pl \<in> set (players l). score (heap l' pl) \<noteq> winning_score (settings l))
            \<longrightarrow> tasks l' = tasks l @ [Start_turn_task s])
       \<and> (\<forall>w. tasks l' = tasks l @ [Finish_game_task s w] \<and> length (tasks l) \<notin> cancelled l
              \<longrightarrow> run_task (length (tasks l)) l' = (Inr (), finish_game s w l')
                  \<and> state (finish_game s w l') = Finished w s)"
proof -
  from assms obtain entry t where g: "get_card_from_table l c = Inr entry"
    and t: "t = (if is_game_endless l then Start_turn_task s
            else (case find (\<lambda>pl. score (heap l' pl) = winning_score (settings l)) (players l) of
                    Some w \<Rightarrow> Finish_game_task s w
                  | None \<Rightarrow> Start_turn_task s))"
    and l': "l' = create_task t
           (l\<lparr>heap := (heap l)(player entry :=
                   (heap l (player entry))\<lparr>score := score (heap l (player entry)) + 1\<rparr>),
              state := Judgement s (Some (player entry)),
              events := events l @ map (\<lambda>q. (q, Turn_ended (player entry) c)) (all_players l),
              punchlines := dump (punchlines l) (map card (table l)),
              table := []\<rparr>)"
    by (rule pick_turn_winner_Inr) blast
  have f: "heap l' = (heap l)(player entry :=
                  (heap l (player entry))\<lparr>score := score (heap l (player entry)) + 1\<rparr>)"
    "players l' = players l" "lead l' = lead l" "table l' = []" "tasks l' = tasks l @ [t]"
    "cancelled l' = cancelled l"
    by (subst l', simp add: create_task_def)+
  have none: "tasks l' = tasks l @ [Start_turn_task s]"
    if "\<not> is_game_endless l"
      "\<forall>pl \<in> set (players l). score (heap l' pl) \<noteq> winning_score (settings l)"
  proof -
    from that(2) have "find (\<lambda>pl. score (heap l' pl) = winning_score (settings l)) (players l) = None"
      by (simp add: find_None_iff)
    with that(1) t f(5) show ?thesis by simp
  qed
  have fin: "run_task (length (tasks l)) l' = (Inr (), finish_game s w l')
                  \<and> state (finish_game s w l') = Finished w s"
    if "tasks l' = tasks l @ [Finish_game_task s w]" "length (tasks l) \<notin> cancelled l" for w
    using that f(6) by (simp add: run_task_def finish_game_def transit_to_def)
  from g f t none fin show ?thesis by blast
qed

theorem pick_turn_winner_finishes_on_equal_score_witness:
  "fst (pick_turn_winner (sc 3) 1 (pc 13) judgement1) = Inr ()
   \<and> \<not> is_game_endless judgement1
   \<and> winning_score (settings judgement1) = 1
   \<and> players judgement1 = [2, 3]
   \<and> score (heap (snd (pick_turn_winner (sc 3) 1 (pc 13) judgement1)) 2) = 0
   \<and> score (heap (snd (pick_turn_winner (sc 3) 1 (pc 13) judgement1)) 3) = 1
   \<and> tasks (snd (pick_turn_winner (sc 3) 1 (pc 13) judgement1))
       = [Turn_timer, Finish_game_task (sc 3) 3]
   \<and> state (snd (run_task 1 (snd (pick_turn_winner (sc 3) 1 (pc 13) judgement1))))
       = Finished 3 (sc 3)"
proof -
  obtain r l' where e: "pick_turn_winner (sc 3) 1 (pc 13) judgement1 = (r, l')"
    by (cases "pick_turn_winner (sc 3) 1 (pc 13) judgement1")
  have "fst (pick_turn_winner (sc 3) 1 (pc 13) judgement1) = Inr ()"
    by (simp add: judgement1_def round1_def example_settings_def pick_turn_winner_def
          get_card_from_table_def dump_def create_task_def notify_def upd_player_def
          all_players_def Let_def)
  with e have r: "r = Inr ()" by simp
  have pre: "\<not> is_game_endless judgement1" "winning_score (settings judgement1) = 1"
    "players judgement1 = [2, 3]" "tasks judgement1 = [Turn_timer]"
    by (simp_all add: judgement1_def round1_def example_settings_def)
  have g: "get_card_from_table judgement1 (pc 13)
           = Inr \<lparr>card = pc 13, player = 3, is_open = True\<rparr>"
    by (simp add: judgement1_def round1_def get_card_from_table_def)
  have sc: "score (heap judgement1 2) = 0" "score (heap judgement1 3) = 0"
    by (simp_all add: judgement1_def round1_def)
  note t = pick_turn_winner_finishes_on_equal_score[OF e[unfolded r]]
  from t[THEN conjunct1] g
  have hp: "heap l' = (heap judgement1)(3 := (heap judgement1 3)\<lparr>score := score (heap judgement1 3) + 1\<rparr>)"
    by simp
  have h: "score (heap l' 2) = 0" "score (heap l' 3) = 1"
    using sc by (simp_all add: hp)
  from t[THEN conjunct2, THEN conjunct2, THEN conjunct2, THEN conjunct2, THEN conjunct1]
  have k: "tasks l' = [Turn_timer, Finish_game_task (sc 3) 3]"
    using pre(1-4) h by simp
  have c: "length (tasks judgement1) \<notin> cancelled judgement1"
    by (simp add: judgement1_def round1_def)
  from t[THEN conjunct2, THEN conjunct2, THEN conjunct2, THEN conjunct2, THEN conjunct2,
         THEN conjunct2, THEN spec, of 3] k c pre(4)
  have "run_task 1 l' = (Inr (), finish_game (sc 3) 3 l')"
    "state (finish_game (sc 3) 3 l') = Finished 3 (sc 3)" by simp_all
  with pre(1-3) r h k show ?thesis unfolding e by simp
qed

theorem winning_score_check_counterexample:
  "\<not> is_game_endless judgement_lead
   \<and> winning_score (settings judgement_lead) = 1
   \<and> lead judgement_lead = Some 1 \<and> is_connected (heap judgement_lead 1)
   \<and> fst (pick_turn_winner (sc 3) 1 (pc 40) judgement_lead) = Inr ()
   \<and> score (heap (snd (pick_turn_winner (sc 3) 1 (pc 40) judgement_lead)) 1) = 1
   \<and> tasks (snd (pick_turn_winner (sc 3) 1 (pc 40) judgement_lead))
       = [Turn_timer, Start_turn_task (sc 3)]
   \<and> \<not> is_game_endless judgement_two
   \<and> winning_score (settings judgement_two) = 0
   \<and> players judgement_two = [2] \<and> is_connected (heap judgement_two 2)
   \<and> fst (pick_turn_winner (sc 3) 1 (pc 21) judgement_two) = Inr ()
   \<and> score (heap (snd (pick_turn_winner (sc 3) 1 (pc 21) judgement_two)) 2) = 1
   \<and> tasks (snd (pick_turn_winner (sc 3) 1 (pc 21) judgement_two))
       = [Turn_timer, Start_turn_task (sc 3)]"
  by (intro conjI)
     (simp_all add: judgement_lead_def judgement_two_def judgement1_def round1_def
        example_settings_def Player_def pick_turn_winner_def get_card_from_table_def dump_def
        create_task_def notify_def upd_player_def all_players_def Let_def)

section \<open>One table entry per player\<close>

text \<open>
  C8. No lobby ever holds two table entries of one player: the table of a new lobby is
  empty, and no call and no task breaks the property, in any state. A player who holds
  the card can always put it on the table; afterwards the table has exactly one entry of
  that player, the new one, and when there was an entry before it is the one removed,
  with its card back in the hand before the new card is taken out.
\<close>

theorem at_most_one_table_entry:
  "distinct (map player (table (run as (Lobby st ow su pu g))))
   \<and> (distinct (map player (table l)) \<longrightarrow>
        distinct (map player (table (run as l)))
        \<and> distinct (map player (table (snd (put_card_on_table p c l))))
        \<and> (c \<in> set (hand (heap l p)) \<longrightarrow>
              fst (put_card_on_table p c l) = Inr ()
              \<and> filter (\<lambda>e. player e = p) (table (snd (put_card_on_table p c l)))
                  = [\<lparr>card = c, player = p, is_open = False\<rparr>]
              \<and> (\<forall>prev. card_on_table_of l p = Some prev \<longrightarrow>
                    table (snd (put_card_on_table p c l))
                      = remove1 prev (table l) @ [\<lparr>card = c, player = p, is_open = False\<rparr>]
                    \<and> hand (heap (snd (put_card_on_table p c l)) p)
                      = remove1 c (hand (heap l p) @ [card prev]))))"
proof -
  have init: "distinct (map player (table (run as (Lobby st ow su pu g))))"
    using advance_run[of "Lobby st ow su pu g" as] by (simp add: advance_def Lobby_def)
  have resubmit: "fst (put_card_on_table p c l) = Inr ()
              \<and> filter (\<lambda>e. player e = p) (table (snd (put_card_on_table p c l)))
                  = [\<lparr>card = c, player = p, is_open = False\<rparr>]
              \<and> (\<forall>prev. card_on_table_of l p = Some prev \<longrightarrow>
                    table (snd (put_card_on_table p c l))
                      = remove1 prev (table l) @ [\<lparr>card = c, player = p, is_open = False\<rparr>]
                    \<and> hand (heap (snd (put_card_on_table p c l)) p)
                      = remove1 c (hand (heap l p) @ [card prev]))"
    if d: "distinct (map player (table l))" and c: "c \<in> set (hand (heap l p))"
  proof (cases "card_on_table_of l p")
    case None
    then have "p \<notin> player ` set (table l)"
      using find_player_None[of p "table l"] by (simp add: card_on_table_of_def)
    then have "filter (\<lambda>e. player e = p) (table l) = []"
      by (auto simp: filter_empty_conv)
    with None show ?thesis by (simp add: put_card_on_table_ok[OF c])
  next
    case (Some prev)
    then have f: "find (\<lambda>e. player e = p) (table l) = Some prev"
      by (simp add: card_on_table_of_def)
    from remove1_found_player[OF d f]
    have "filter (\<lambda>e. player e = p) (remove1 prev (table l)) = []"
      by (auto simp: filter_empty_conv)
    with Some show ?thesis by (simp add: put_card_on_table_ok[OF c])
  qed
  have keep: "distinct (map player (table (run as l)))" if "distinct (map player (table l))"
    using advance_run[of l as] that by (simp add: advance_def)
  from init keep resubmit put_card_on_table_distinct[of l p c] show ?thesis by blast
qed

theorem at_most_one_table_entry_witness:
  "distinct (map player (table round1_submitted))
   \<and> pc 22 \<in> set (hand (heap round1_submitted 2))
   \<and> card_on_table_of round1_submitted 2 = Some \<lparr>card = pc 21, player = 2, is_open = False\<rparr>
   \<and> fst (put_card_on_table 2 (pc 22) round1_submitted) = Inr ()
   \<and> table (snd (put_card_on_table 2 (pc 22) round1_submitted))
       = [\<lparr>card = pc 22, player = 2, is_open = False\<rparr>]
   \<and> hand (heap (snd (put_card_on_table 2 (pc 22) round1_submitted)) 2)
       = map pc [30, 29, 28, 27, 26, 25, 24, 23, 21]
   \<and> distinct (map player (table (run [Make_turn 2 (pc 22), Make_turn 3 (pc 13)]
                                      round1_submitted)))"
proof -
  have pre: "distinct (map player (table round1_submitted))"
    "pc 22 \<in> set (hand (heap round1_submitted 2))"
    "card_on_table_of round1_submitted 2 = Some \<lparr>card = pc 21, player = 2, is_open = False\<rparr>"
    "table round1_submitted = [\<lparr>card = pc 21, player = 2, is_open = False\<rparr>]"
    "hand (heap round1_submitted 2) = map pc [30, 29, 28, 27, 26, 25, 24, 23, 22]"
    by (simp_all add: round1_submitted_def round1_def card_on_table_of_def)
  note t = at_most_one_table_entry[of "[Make_turn 2 (pc 22), Make_turn 3 (pc 13)]"
      example_settings 1 example_setups example_punchlines "[]" round1_submitted 2 "pc 22",
      THEN conjunct2, rule_format, OF pre(1)]
  note r = t[THEN conjunct2, THEN conjunct2, rule_format, OF pre(2)]
  from r[THEN conjunct2, THEN conjunct2, rule_format, OF pre(3)] pre(4,5)
  have "table (snd (put_card_on_table 2 (pc 22) round1_submitted))
       = [\<lparr>card = pc 22, player = 2, is_open = False\<rparr>]"
    "hand (heap (snd (put_card_on_table 2 (pc 22) round1_submitted)) 2)
       = map pc [30, 29, 28, 27, 26, 25, 24, 23, 21]"
    by simp_all
  with pre(1-3) r[THEN conjunct1] t[THEN conjunct1] show ?thesis by simp
qed

section \<open>Endless mode\<close>

lemma pick_turn_winner_endless:
  "is_game_endless l \<Longrightarrow> pick_turn_winner s p c l = (Inr (), l') \<Longrightarrow>
   tasks l' = tasks l @ [Start_turn_task s]"
  by (auto simp: pick_turn_winner_def Let_def notify_def upd_player_def create_task_def
        split: if_splits sum.splits)

text \<open>
  C10. \<^verbatim>\<open>Finished.continue_game\<close> by the owner sets the endless flag; nothing ever clears
  it. \<^verbatim>\<open>Finished.start_game\<close> leaves a set flag set, and so does every sequence of calls
  and tasks. While it is set, \<^verbatim>\<open>pick_turn_winner\<close> schedules the next round whatever the
  scores are, no sequence of calls and tasks creates a \<^verbatim>\<open>finish_game\<close> task, and a lobby
  that is not finished and has no such task pending never becomes \<^verbatim>\<open>Finished\<close>.
\<close>

theorem endless_mode_survives_restart:
  "(Some p = owner l \<longrightarrow> is_game_endless (snd (continue_game s p l)))
   \<and> (is_game_endless l \<longrightarrow>
        is_game_endless (snd (Finished_start_game p st su pu l))
        \<and> is_game_endless (run as l)
        \<and> (\<exists>new. tasks (run as l) = tasks l @ new \<and> (\<forall>t \<in> set new. \<not> is_finish t))
        \<and> ((\<forall>t \<in> set (tasks l). \<not> is_finish t) \<and> \<not> is_finished (state l)
              \<longrightarrow> \<not> is_finished (state (run as l)))
        \<and> (\<forall>l'. pick_turn_winner s p c l = (Inr (), l') \<longrightarrow>
              tasks l' = tasks l @ [Start_turn_task s] \<and> is_game_endless l'))"
proof -
  have set_flag: "is_game_endless (snd (continue_game s p l))" if "Some p = owner l"
  proof -
    let ?l = "l\<lparr>is_game_endless := True, setups := dump (setups l) [s]\<rparr>"
    have "advance ?l (snd (start_turn ?l))" by (rule advance_start_turn)
    then have "is_game_endless (snd (start_turn ?l))" by (simp add: advance_def)
    with that show ?thesis by (simp add: continue_game_def Finished_start_turn_def)
  qed
  have pick: "tasks l' = tasks l @ [Start_turn_task s] \<and> is_game_endless l'"
    if e: "is_game_endless l" and r: "pick_turn_winner s p c l = (Inr (), l')" for l'
  proof -
    from pick_turn_winner_endless[OF e r]
    have "tasks l' = tasks l @ [Start_turn_task s]" .
    moreover from advance_pick_turn_winner[of l s p c] r e have "is_game_endless l'"
      by (simp add: advance_def)
    ultimately show ?thesis by simp
  qed
  have restart: "is_game_endless (snd (Finished_start_game p st su pu l))"
    if "is_game_endless l"
    using advance_Finished_start_game[of l p st su pu] that by (simp add: advance_def)
  have runs: "is_game_endless (run as l)
        \<and> (\<exists>new. tasks (run as l) = tasks l @ new \<and> (\<forall>t \<in> set new. \<not> is_finish t))
        \<and> ((\<forall>t \<in> set (tasks l). \<not> is_finish t) \<and> \<not> is_finished (state l)
              \<longrightarrow> \<not> is_finished (state (run as l)))"
    if "is_game_endless l"
    using advance_run[of l as] that unfolding advance_def by blast
  from set_flag pick restart runs show ?thesis by blast
qed

theorem endless_mode_survives_restart_witness:
  "Some 1 = owner finished1
   \<and> is_game_endless (snd (continue_game (sc 3) 1 finished1))
   \<and> is_game_endless finished_endless
   \<and> fst (Finished_start_game 1 example_settings example_setups example_punchlines
             finished_endless) = Inr ()
   \<and> state (snd (Finished_start_game 1 example_settings example_setups example_punchlines
             finished_endless)) = Turns (sc 3) 2
   \<and> is_game_endless (snd (Finished_start_game 1 example_settings example_setups
             example_punchlines finished_endless))
   \<and> is_game_endless judgement_endless
   \<and> \<not> is_finished (state judgement_endless)
   \<and> winning_score (settings judgement_endless) = 1
   \<and> fst (pick_turn_winner (sc 3) 1 (pc 13) judgement_endless) = Inr ()
   \<and> score (heap (snd (pick_turn_winner (sc 3) 1 (pc 13) judgement_endless)) 3) = 1
   \<and> tasks (snd (pick_turn_winner (sc 3) 1 (pc 13) judgement_endless))
       = [Turn_timer, Start_turn_task (sc 3)]
   \<and> \<not> is_finished (state (run [Pick_turn_winner 1 (pc 13), Run_task 1] judgement_endless))"
proof -
  have c1: "Some 1 = owner finished1"
    by (simp add: finished1_def judgement1_def round1_def)
  note tf = endless_mode_survives_restart[where p = 1 and l = finished1 and s = "sc 3"]
  from tf[THEN conjunct1] c1 have c2: "is_game_endless (snd (continue_game (sc 3) 1 finished1))"
    by simp
  have c3: "is_game_endless finished_endless" by (simp add: finished_endless_def)
  have c4: "fst (Finished_start_game 1 example_settings example_setups example_punchlines
             finished_endless) = Inr ()"
    "state (snd (Finished_start_game 1 example_settings example_setups example_punchlines
             finished_endless)) = Turns (sc 3) 2"
    by (simp_all add: finished_endless_def finished1_def judgement1_def round1_def Player_def
          example_setups_def example_punchlines_def
          Finished_start_game_def Gathering_start_game_def HAND_SIZE_def deal_cards_numeral
          draw_punchline_def draw_setup_def get_card_def add_punchline_card_def
          start_turn_def change_lead_def create_task_def
          transit_to_def notify_def upd_player_def all_players_def Let_def)
  note te = endless_mode_survives_restart[where p = 1 and l = finished_endless
      and st = example_settings and su = example_setups and pu = example_punchlines,
      THEN conjunct2, rule_format, OF c3]
  note c5 = te[THEN conjunct1]
  have j: "is_game_endless judgement_endless" "\<not> is_finished (state judgement_endless)"
    "winning_score (settings judgement_endless) = 1"
    "\<forall>t \<in> set (tasks judgement_endless). \<not> is_finish t"
    "tasks judgement_endless = [Turn_timer]"
    by (simp_all add: judgement_endless_def judgement1_def round1_def example_settings_def)
  obtain r l' where e: "pick_turn_winner (sc 3) 1 (pc 13) judgement_endless = (r, l')"
    by (cases "pick_turn_winner (sc 3) 1 (pc 13) judgement_endless")
  have ev: "fst (pick_turn_winner (sc 3) 1 (pc 13) judgement_endless) = Inr ()"
    "score (heap (snd (pick_turn_winner (sc 3) 1 (pc 13) judgement_endless)) 3) = 1"
    by (simp_all add: judgement_endless_def judgement1_def round1_def example_settings_def
          pick_turn_winner_def get_card_from_table_def dump_def create_task_def notify_def
          upd_player_def all_players_def Let_def)
  with e have r: "r = Inr ()" by simp
  note tj = endless_mode_survives_restart[where p = 1 and l = judgement_endless
      and s = "sc 3" and c = "pc 13" and as = "[Pick_turn_winner 1 (pc 13), Run_task 1]",
      THEN conjunct2, rule_format, OF j(1)]
  from tj[THEN conjunct2, THEN conjunct2, THEN conjunct2, THEN conjunct2, rule_format,
          OF e[unfolded r]] j(5)
  have c6: "tasks l' = [Turn_timer, Start_turn_task (sc 3)]" by simp
  from tj[THEN conjunct2, THEN conjunct2, THEN conjunct2, THEN conjunct1] j(2,4)
  have c7: "\<not> is_finished (state (run [Pick_turn_winner 1 (pc 13), Run_task 1]
                                       judgement_endless))"
    by blast
  from c1 c2 c3 c4 c5 j(1-3) ev c6 c7 show ?thesis unfolding e by simp
qed

end
